theory Spec2Isabelle
  imports Main
begin

section \<open>Python values used by the pipeline\<close>

text \<open>
  A Python \<open>str\<close> is a sequence of Unicode code points, and \<open>len\<close> counts code points.
  The sentence terminators and the intro markers of this program lie outside ASCII, so a
  string is modelled as the list of its code points.
\<close>

type_synonym pstr = "nat list"

text \<open>
  The exceptions that cross a function boundary in the modelled code. An exception raised
  by an external call (the generation service, the file system, a later stage) carries a
  tag that identifies it. \<open>except Exception\<close> catches every exception but those that
  derive from \<open>BaseException\<close> only (\<open>KeyboardInterrupt\<close>, \<open>SystemExit\<close>). The
  others are the two \<open>ValueError\<close>s and the two final exceptions of the generation
  clients, \<open>struct.error\<close>, the \<open>FileNotFoundError\<close> and the three \<open>ValueError\<close>s of the
  ingestion, and \<open>yaml.YAMLError\<close>.
\<close>

datatype exn =
    ServiceException nat
  | ServiceBaseException nat
  | EmptyResponse
  | NoAudioData
  | LLMGenerationFailed
  | TTSGenerationFailed
  | StructError
  | FileNotFound
  | NotMarkdown
  | BadEncoding
  | EmptyFile
  | YAMLError

fun is_Exception :: "exn \<Rightarrow> bool" where
  "is_Exception (ServiceBaseException t) = False"
| "is_Exception e = True"

section \<open>Generation clients: the bounded retry loop\<close>

text \<open>
  What the caller can observe of one call of \<open>generate\<close>: the attempts made, by their
  number, and the calls of \<open>time.sleep\<close>, by their argument in seconds.
\<close>

datatype event = Attempt nat | Sleep nat

text \<open>
  \<open>LLMClient.generate\<close>, llm_client.py lines 65-94. The service is a parameter: \<open>api k\<close>
  is what \<open>generate_content\<close> does when it is called for attempt \<open>k\<close>, either raising
  or returning a response whose text is the given string (the empty string also stands
  for a response without text). An empty text raises \<open>ValueError\<close> inside the \<open>try\<close>.
\<close>

definition llm_attempt :: "(nat \<Rightarrow> exn + pstr) \<Rightarrow> nat \<Rightarrow> exn + pstr" where
  "llm_attempt api attempt =
     (case api attempt of
        Inl e \<Rightarrow> Inl e
      | Inr text \<Rightarrow> if text \<noteq> [] then Inr text else Inl EmptyResponse)"

text \<open>
  The loop \<open>for attempt in range(max_retries)\<close> over the attempt numbers still to be
  tried. A successful attempt returns; an exception that \<open>except Exception\<close> does not
  catch leaves the loop at once; a caught one sleeps \<open>2 ** attempt\<close> seconds when
  \<open>attempt < max_retries - 1\<close> and is raised again otherwise. The statement after the
  loop raises a fresh exception.
\<close>

fun retry_loop ::
  "(nat \<Rightarrow> exn + 'a) \<Rightarrow> exn \<Rightarrow> int \<Rightarrow> nat list \<Rightarrow> event list \<times> (exn + 'a)" where
  "retry_loop body final max_retries [] = ([], Inl final)"
| "retry_loop body final max_retries (attempt # rest) =
     (case body attempt of
        Inr r \<Rightarrow> ([Attempt attempt], Inr r)
      | Inl e \<Rightarrow>
          if \<not> is_Exception e then ([Attempt attempt], Inl e)
          else if int attempt < max_retries - 1 then
            (let (evs, res) = retry_loop body final max_retries rest
             in (Attempt attempt # Sleep (2 ^ attempt) # evs, res))
          else ([Attempt attempt], Inl e))"

definition generate :: "(nat \<Rightarrow> exn + pstr) \<Rightarrow> int \<Rightarrow> event list \<times> (exn + pstr)" where
  "generate api max_retries =
     retry_loop (llm_attempt api) LLMGenerationFailed max_retries [0 ..< nat max_retries]"

text \<open>
  \<open>TTSClient.generate_audio\<close>, tts_client.py lines 89-148. \<open>stream k\<close> is the outcome of
  the streaming body of attempt \<open>k\<close> (lines 93-128): the audio files written, in order, or
  the exception raised while streaming, converting or saving. No audio file raises
  \<open>ValueError\<close> inside the \<open>try\<close>.
\<close>

definition tts_attempt :: "(nat \<Rightarrow> exn + 'f list) \<Rightarrow> nat \<Rightarrow> exn + 'f list" where
  "tts_attempt stream attempt =
     (case stream attempt of
        Inl e \<Rightarrow> Inl e
      | Inr audio_files \<Rightarrow> if audio_files \<noteq> [] then Inr audio_files else Inl NoAudioData)"

definition generate_audio ::
  "(nat \<Rightarrow> exn + 'f list) \<Rightarrow> int \<Rightarrow> event list \<times> (exn + 'f list)" where
  "generate_audio stream max_retries =
     retry_loop (tts_attempt stream) TTSGenerationFailed max_retries [0 ..< nat max_retries]"

definition default_max_retries :: int where
  "default_max_retries = 3"

text \<open>The attempts of a trace, and the waits of a trace, each in order.\<close>

fun attempts_of :: "event list \<Rightarrow> nat list" where
  "attempts_of [] = []"
| "attempts_of (Attempt k # evs) = k # attempts_of evs"
| "attempts_of (Sleep s # evs) = attempts_of evs"

fun sleeps_of :: "event list \<Rightarrow> nat list" where
  "sleeps_of [] = []"
| "sleeps_of (Attempt k # evs) = sleeps_of evs"
| "sleeps_of (Sleep s # evs) = s # sleeps_of evs"

text \<open>
  The trace of a call in which every attempt fails: attempt \<open>k\<close>, then a wait of
  \<open>2 ^ k\<close> unless \<open>k\<close> is the last attempt.
\<close>

fun failing_trace :: "nat \<Rightarrow> nat \<Rightarrow> event list" where
  "failing_trace k 0 = []"
| "failing_trace k (Suc 0) = [Attempt k]"
| "failing_trace k (Suc (Suc n)) = Attempt k # Sleep (2 ^ k) # failing_trace (Suc k) (Suc n)"

section \<open>Orchestrator\<close>

type_synonym path = pstr

text \<open>
  \<open>PipelineOrchestrator.results\<close>, orchestrator.py lines 24-30: a dictionary with the five
  fixed keys \<open>script\<close>, \<open>explanation\<close>, \<open>questions\<close>, \<open>flashcards\<close>, \<open>audio\<close>, each
  holding a path or \<open>None\<close>.
\<close>

record ledger =
  res_script :: "path option"
  res_explanation :: "path option"
  res_questions :: "path option"
  res_flashcards :: "path option"
  res_audio :: "path option"

text \<open>The lines the orchestrator writes to its log, in the order written.\<close>

datatype log_entry =
    StepIngest | StepScript | StepExplainer | StepQuestions | StepAudio | StepEmail
  | AudioFailed exn
  | EmailFailed
  | Summary ledger
  | PipelineDone
  | PipelineError exn

text \<open>
  The fields of a \<open>PipelineOrchestrator\<close> (lines 21-30) and its log. The type \<open>'d\<close> is
  the ingested document.
\<close>

record 'd orchestrator =
  doc :: "'d option"
  output_dir :: "path option"
  results :: ledger
  log :: "log_entry list"

definition init_orchestrator :: "'d orchestrator" where
  "init_orchestrator =
     \<lparr>doc = None, output_dir = None,
      results = \<lparr>res_script = None, res_explanation = None, res_questions = None,
                 res_flashcards = None, res_audio = None\<rparr>,
      log = []\<rparr>"

text \<open>
  The collaborators of one run, each with the arguments the orchestrator passes and
  either the value returned or the exception raised. \<open>make_output_dir\<close> is lines 60-61
  (\<open>config.get_output_dir\<close> and \<open>mkdir\<close>) and \<open>write_input_copy\<close> is lines 100-101. The
  language, target length, speaker and voice settings of the run are fixed inside
  \<open>build_script\<close> and \<open>build_audio\<close>.
\<close>

record 'd stages =
  make_output_dir :: "exn + path"
  ingest_markdown :: "exn + 'd"
  write_input_copy :: "path option \<Rightarrow> 'd \<Rightarrow> exn option"
  build_script :: "'d option \<Rightarrow> path option \<Rightarrow> exn + path"
  build_explainer :: "path \<Rightarrow> path option \<Rightarrow> exn + path"
  build_questions :: "path \<Rightarrow> path option \<Rightarrow> exn + (path \<times> path option)"
  build_audio :: "path \<Rightarrow> path option \<Rightarrow> exn + path"
  send_email :: "path option \<Rightarrow> 'd \<Rightarrow> ledger \<Rightarrow> exn + bool"

definition add_log :: "log_entry \<Rightarrow> 'd orchestrator \<Rightarrow> 'd orchestrator" where
  "add_log l self = self\<lparr>log := log self @ [l]\<rparr>"

text \<open>\<open>ingest_step\<close>, lines 93-103.\<close>

definition ingest_step :: "'d stages \<Rightarrow> 'd orchestrator \<Rightarrow> 'd orchestrator \<times> (exn + 'd)" where
  "ingest_step env self0 =
     (let self = add_log StepIngest self0
      in case ingest_markdown env of
           Inl e \<Rightarrow> (self, Inl e)
         | Inr d \<Rightarrow>
             (case write_input_copy env (output_dir self) d of
                Some e \<Rightarrow> (self, Inl e)
              | None \<Rightarrow> (self, Inr d)))"

text \<open>\<open>build_script_step\<close>, lines 105-123.\<close>

definition build_script_step ::
  "'d stages \<Rightarrow> 'd orchestrator \<Rightarrow> 'd orchestrator \<times> (exn + path)" where
  "build_script_step env self0 =
     (let self = add_log StepScript self0
      in case build_script env (doc self) (output_dir self) of
           Inl e \<Rightarrow> (self, Inl e)
         | Inr script_path \<Rightarrow>
             (self\<lparr>results := (results self)\<lparr>res_script := Some script_path\<rparr>\<rparr>,
              Inr script_path))"

text \<open>\<open>build_explainer_step\<close>, lines 125-135.\<close>

definition build_explainer_step ::
  "'d stages \<Rightarrow> path \<Rightarrow> 'd orchestrator \<Rightarrow> 'd orchestrator \<times> (exn + path)" where
  "build_explainer_step env script_path self0 =
     (let self = add_log StepExplainer self0
      in case build_explainer env script_path (output_dir self) of
           Inl e \<Rightarrow> (self, Inl e)
         | Inr explanation_path \<Rightarrow>
             (self\<lparr>results := (results self)\<lparr>res_explanation := Some explanation_path\<rparr>\<rparr>,
              Inr explanation_path))"

text \<open>\<open>build_questions_step\<close>, lines 137-148.\<close>

definition build_questions_step ::
  "'d stages \<Rightarrow> path \<Rightarrow> 'd orchestrator
   \<Rightarrow> 'd orchestrator \<times> (exn + (path \<times> path option))" where
  "build_questions_step env script_path self0 =
     (let self = add_log StepQuestions self0
      in case build_questions env script_path (output_dir self) of
           Inl e \<Rightarrow> (self, Inl e)
         | Inr (qa_path, flashcard_path) \<Rightarrow>
             (self\<lparr>results := (results self)\<lparr>res_questions := Some qa_path,
                                               res_flashcards := flashcard_path\<rparr>\<rparr>,
              Inr (qa_path, flashcard_path)))"

text \<open>
  \<open>build_audio_step\<close>, lines 150-171. The \<open>try\<close> encloses the call and the ledger
  update; \<open>except Exception\<close> logs and returns \<open>None\<close>.
\<close>

definition build_audio_step ::
  "'d stages \<Rightarrow> path \<Rightarrow> 'd orchestrator \<Rightarrow> 'd orchestrator \<times> (exn + path option)" where
  "build_audio_step env script_path self0 =
     (let self = add_log StepAudio self0
      in case build_audio env script_path (output_dir self) of
           Inr audio_path \<Rightarrow>
             (self\<lparr>results := (results self)\<lparr>res_audio := Some audio_path\<rparr>\<rparr>,
              Inr (Some audio_path))
         | Inl e \<Rightarrow>
             if is_Exception e then (add_log (AudioFailed e) self, Inr None)
             else (self, Inl e))"

text \<open>
  \<open>send_email_step\<close>, lines 173-192. Reading \<open>self.doc.title\<close> of an unset document
  raises inside the \<open>try\<close>, as any exception of \<open>send_email\<close> does.
\<close>

definition send_email_step ::
  "'d stages \<Rightarrow> 'd orchestrator \<Rightarrow> 'd orchestrator \<times> (exn + bool)" where
  "send_email_step env self0 =
     (let self = add_log StepEmail self0
      in case doc self of
           None \<Rightarrow> (add_log EmailFailed self, Inr False)
         | Some d \<Rightarrow>
             (case send_email env (output_dir self) d (results self) of
                Inr success \<Rightarrow> (self, Inr success)
              | Inl e \<Rightarrow>
                  if is_Exception e then (add_log EmailFailed self, Inr False)
                  else (self, Inl e)))"

text \<open>\<open>_print_summary\<close>, lines 194-227: one line per ledger entry.\<close>

definition print_summary :: "'d orchestrator \<Rightarrow> 'd orchestrator" where
  "print_summary self = add_log (Summary (results self)) self"

text \<open>
  \<open>run_full_pipeline\<close>, lines 57-91. An exception of any step inside the \<open>try\<close> is logged
  when \<open>except Exception\<close> catches it, and raised again.
\<close>

definition pipeline_error :: "'d orchestrator \<Rightarrow> exn \<Rightarrow> 'd orchestrator \<times> (exn + path)" where
  "pipeline_error self e =
     (if is_Exception e then (add_log (PipelineError e) self, Inl e) else (self, Inl e))"

definition run_full_pipeline ::
  "'d stages \<Rightarrow> bool \<Rightarrow> 'd orchestrator \<Rightarrow> 'd orchestrator \<times> (exn + path)" where
  "run_full_pipeline env send_mail self0 =
     (case make_output_dir env of
        Inl e \<Rightarrow> (self0, Inl e)
      | Inr dir \<Rightarrow>
     (case ingest_step env (self0\<lparr>output_dir := Some dir\<rparr>) of
        (self1, Inl e) \<Rightarrow> pipeline_error self1 e
      | (self1, Inr d) \<Rightarrow>
     (case build_script_step env (self1\<lparr>doc := Some d\<rparr>) of
        (self2, Inl e) \<Rightarrow> pipeline_error self2 e
      | (self2, Inr script_path) \<Rightarrow>
     (case build_explainer_step env script_path self2 of
        (self3, Inl e) \<Rightarrow> pipeline_error self3 e
      | (self3, Inr explanation_path) \<Rightarrow>
     (case build_questions_step env script_path self3 of
        (self4, Inl e) \<Rightarrow> pipeline_error self4 e
      | (self4, Inr qa) \<Rightarrow>
     (case build_audio_step env script_path self4 of
        (self5, Inl e) \<Rightarrow> pipeline_error self5 e
      | (self5, Inr audio_path) \<Rightarrow>
     (case (if send_mail then send_email_step env self5 else (self5, Inr False)) of
        (self6, Inl e) \<Rightarrow> pipeline_error self6 e
      | (self6, Inr sent) \<Rightarrow>
          (add_log PipelineDone (print_summary self6), Inr dir))))))))"

text \<open>
  A run for illustration: every stage succeeds but the audio stage, which raises; the
  document is the number 0 and each path a one-element string.
\<close>

definition audio_failing_stages :: "nat stages" where
  "audio_failing_stages =
     \<lparr>make_output_dir = Inr [1],
      ingest_markdown = Inr 0,
      write_input_copy = (\<lambda>dir d. None),
      build_script = (\<lambda>d dir. Inr [2]),
      build_explainer = (\<lambda>sp dir. Inr [3]),
      build_questions = (\<lambda>sp dir. Inr ([4], Some [5])),
      build_audio = (\<lambda>sp dir. Inl (ServiceException 7)),
      send_email = (\<lambda>dir d led. Inr True)\<rparr>"

section \<open>Strings\<close>

text \<open>
  The code points for which \<open>str.isspace\<close> holds. \<open>str.strip\<close> removes them at both
  ends, and the pattern \<open>\s\<close> of \<open>re\<close> matches exactly them on a \<open>str\<close>.
\<close>

definition is_space :: "nat \<Rightarrow> bool" where
  "is_space c \<longleftrightarrow>
     (9 \<le> c \<and> c \<le> 13) \<or> (28 \<le> c \<and> c \<le> 32) \<or> c = 133 \<or> c = 160 \<or> c = 5760
     \<or> (8192 \<le> c \<and> c \<le> 8202) \<or> c = 8232 \<or> c = 8233 \<or> c = 8239 \<or> c = 8287
     \<or> c = 12288"

definition strip :: "pstr \<Rightarrow> pstr" where
  "strip s = rev (dropWhile is_space (rev (dropWhile is_space s)))"

text \<open>
  \<open>sep.join(parts)\<close>, and \<open>s.split(sep)\<close> for a separator of one character, given by a
  test on code points: the pieces between the separators, at least one piece.
\<close>

fun join :: "pstr \<Rightarrow> pstr list \<Rightarrow> pstr" where
  "join sep [] = []"
| "join sep [x] = x"
| "join sep (x # y # ys) = x @ sep @ join sep (y # ys)"

fun split_where :: "(nat \<Rightarrow> bool) \<Rightarrow> pstr \<Rightarrow> pstr \<Rightarrow> pstr list" where
  "split_where d cur [] = [cur]"
| "split_where d cur (c # cs) =
     (if d c then cur # split_where d [] cs else split_where d (cur @ [c]) cs)"

definition newline :: nat where
  "newline = 10"

definition split_lines :: "pstr \<Rightarrow> pstr list" where
  "split_lines s = split_where (\<lambda>c. c = newline) [] s"

text \<open>\<open>s.startswith(w)\<close> and \<open>w in s\<close>.\<close>

fun startswith :: "pstr \<Rightarrow> pstr \<Rightarrow> bool" where
  "startswith s [] = True"
| "startswith [] (w # ws) = False"
| "startswith (c # cs) (w # ws) = (c = w \<and> startswith cs ws)"

fun contains :: "pstr \<Rightarrow> pstr \<Rightarrow> bool" where
  "contains [] w = (w = [])"
| "contains (c # cs) w = (startswith (c # cs) w \<or> contains cs w)"

text \<open>
  \<open>str.lower\<close> on the letters A to Z. The other case mappings of Unicode are left out:
  none of them yields a character of the words this program looks for in a lowered
  string (\<open>rate=\<close>, \<open>welcome\<close>, \<open>hello\<close> and three words without case), so the tests
  made on lowered strings are the same.
\<close>

definition lower_char :: "nat \<Rightarrow> nat" where
  "lower_char c = (if 65 \<le> c \<and> c \<le> 90 then c + 32 else c)"

definition lower :: "pstr \<Rightarrow> pstr" where
  "lower s = map lower_char s"

subsection \<open>The token estimate\<close>

text \<open>
  \<open>int(len(text) * 0.7)\<close> is computed in binary floating point, and differs from
  \<open>7 * len(text) div 10\<close> (at length 90 it is 62). The literal \<open>0.7\<close> is the double
  \<open>6305039478318694 / 2 ^ 53\<close>. A natural number is rounded to 53 significant bits,
  ties to even, as conversion to a double and the multiplication of doubles do; the
  overflow beyond the range of doubles is not modelled, a string being far shorter.
\<close>

fun bit_length :: "nat \<Rightarrow> nat" where
  "bit_length n = (if n = 0 then 0 else Suc (bit_length (n div 2)))"

declare bit_length.simps [simp del]

definition round_to_53 :: "nat \<Rightarrow> nat \<times> nat" where
  "round_to_53 p =
     (let s = bit_length p - 53; q = p div 2 ^ s; r = p mod 2 ^ s
      in if s = 0 then (p, 0)
         else if 2 * r > 2 ^ s \<or> (2 * r = 2 ^ s \<and> odd q) then (q + 1, s)
         else (q, s))"

definition double_07 :: nat where
  "double_07 = 6305039478318694"

definition times_07 :: "nat \<Rightarrow> nat" where
  "times_07 n =
     (let (m, s) = round_to_53 n; (m', s') = round_to_53 (m * double_07)
      in (m' * 2 ^ (s + s')) div 2 ^ 53)"

text \<open>\<open>TextSplitter._estimate_tokens\<close>, splitter.py lines 173-176.\<close>

definition estimate_tokens :: "pstr \<Rightarrow> int" where
  "estimate_tokens text = int (times_07 (length text))"

subsection \<open>Paragraphs and sentences\<close>

text \<open>
  The pattern \<open>\s*\n\<close> matched greedily at the start of a string: the rest of the string
  after the match. The star first takes one more white space and falls back to the line
  feed at hand when the longer match fails, so the match ends at the last line feed of
  the leading white space.
\<close>

fun match_ws_nl :: "pstr \<Rightarrow> pstr option" where
  "match_ws_nl [] = None"
| "match_ws_nl (c # cs) =
     (if is_space c then
        (case match_ws_nl cs of
           Some r \<Rightarrow> Some r
         | None \<Rightarrow> if c = newline then Some cs else None)
      else None)"

text \<open>
  \<open>re.split(r'\n\s*\n', text)\<close>: the text is scanned from the left, a match is tried at
  every line feed, and the characters outside the matches form the pieces.
\<close>

function re_split_blank :: "pstr \<Rightarrow> pstr \<Rightarrow> pstr list" where
  "re_split_blank cur [] = [cur]"
| "re_split_blank cur (c # cs) =
     (if c = newline then
        (case match_ws_nl cs of
           Some r \<Rightarrow> cur # re_split_blank [] r
         | None \<Rightarrow> re_split_blank (cur @ [c]) cs)
      else re_split_blank (cur @ [c]) cs)"
  by pat_completeness auto
termination
proof (relation "measure (\<lambda>(cur, s). length s)")
  fix cur :: pstr and c :: nat and cs r :: pstr
  assume "match_ws_nl cs = Some r"
  then have "length r < length cs"
    by (induction cs arbitrary: r) (auto split: if_splits option.splits)
  then show "(([], r), (cur, c # cs)) \<in> measure (\<lambda>(cur, s). length s)"
    by simp
qed simp_all

text \<open>\<open>TextSplitter._split_by_paragraphs\<close>, splitter.py lines 127-131.\<close>

definition split_by_paragraphs :: "pstr \<Rightarrow> pstr list" where
  "split_by_paragraphs text =
     filter (\<lambda>p. p \<noteq> []) (map strip (re_split_blank [] text))"

text \<open>
  The three sentence terminators of the pattern in line 136: the ideographic full stop
  U+3002 and the fullwidth exclamation and question marks U+FF01 and U+FF1F.
\<close>

definition full_stop :: nat where
  "full_stop = 12290"

definition is_terminator :: "nat \<Rightarrow> bool" where
  "is_terminator c \<longleftrightarrow> c = 12290 \<or> c = 65281 \<or> c = 65311"

text \<open>Lines 136-137: the stripped pieces that are not empty, each with a full stop added.\<close>

definition sentences_of :: "pstr \<Rightarrow> pstr list" where
  "sentences_of text =
     map (\<lambda>s. s @ [full_stop])
       (filter (\<lambda>s. s \<noteq> []) (map strip (split_where is_terminator [] text)))"

section \<open>Text splitter\<close>

text \<open>
  \<open>LLMClient.count_tokens\<close>, llm_client.py lines 96-123. The service's token count is
  a parameter: \<open>api text\<close> is the count returned, or \<open>None\<close> when the query raises an
  \<open>Exception\<close>, and then the estimate of line 123 is used.
\<close>

definition count_tokens :: "(pstr \<Rightarrow> int option) \<Rightarrow> pstr \<Rightarrow> int" where
  "count_tokens api text =
     (case api text of Some total_tokens \<Rightarrow> total_tokens | None \<Rightarrow> int (times_07 (length text)))"

text \<open>\<open>LLMClient.is_token_limit_exceeded\<close>, lines 125-138, and the default of its limit.\<close>

definition is_token_limit_exceeded :: "(pstr \<Rightarrow> int option) \<Rightarrow> pstr \<Rightarrow> int \<Rightarrow> bool" where
  "is_token_limit_exceeded api text limit \<longleftrightarrow> count_tokens api text > limit"


text \<open>\<open>Config.chunk_size\<close>, config.py line 41, and \<open>TextSplitter.__init__\<close>, line 20.\<close>

definition config_chunk_size :: int where
  "config_chunk_size = 800"


text \<open>
  The budget test that both loops of the splitter make on \<open>test_chunk\<close>: with a client
  (lines 48 and 149) and without one (lines 61 and 159). The argument \<open>llm_client\<close> is
  \<open>None\<close> or the token count service of the client.
\<close>

definition over_budget :: "int \<Rightarrow> (pstr \<Rightarrow> int option) option \<Rightarrow> pstr \<Rightarrow> bool" where
  "over_budget chunk_size llm_client test_chunk =
     (case llm_client of
        Some api \<Rightarrow> is_token_limit_exceeded api test_chunk chunk_size
      | None \<Rightarrow> estimate_tokens test_chunk > chunk_size)"

text \<open>
  The cost of a text under the oracle of a call: the client's count when a client is
  given, the estimate otherwise.
\<close>

definition cost :: "(pstr \<Rightarrow> int option) option \<Rightarrow> pstr \<Rightarrow> int" where
  "cost llm_client text =
     (case llm_client of Some api \<Rightarrow> count_tokens api text | None \<Rightarrow> estimate_tokens text)"

text \<open>
  The loop of \<open>_split_by_sentences\<close>, lines 145-169, with the list \<open>chunks\<close> and the
  string \<open>current_chunk\<close> as its state.
\<close>

fun sentence_loop ::
  "int \<Rightarrow> (pstr \<Rightarrow> int option) option \<Rightarrow> pstr list \<Rightarrow> pstr list \<Rightarrow> pstr \<Rightarrow> pstr list" where
  "sentence_loop chunk_size llm_client [] chunks current_chunk =
     (if current_chunk \<noteq> [] then chunks @ [strip current_chunk] else chunks)"
| "sentence_loop chunk_size llm_client (sentence # rest) chunks current_chunk =
     (let test_chunk = (if current_chunk \<noteq> [] then current_chunk @ sentence else sentence)
      in if over_budget chunk_size llm_client test_chunk then
           (if current_chunk \<noteq> [] then
              sentence_loop chunk_size llm_client rest (chunks @ [strip current_chunk]) sentence
            else sentence_loop chunk_size llm_client rest (chunks @ [sentence]) current_chunk)
         else sentence_loop chunk_size llm_client rest chunks test_chunk)"

text \<open>\<open>TextSplitter._split_by_sentences\<close>, lines 133-171.\<close>

definition split_by_sentences ::
  "int \<Rightarrow> (pstr \<Rightarrow> int option) option \<Rightarrow> pstr \<Rightarrow> pstr list" where
  "split_by_sentences chunk_size llm_client text =
     (let sentences = sentences_of text
      in if sentences = [] then [text]
         else sentence_loop chunk_size llm_client sentences [] [])"

definition blank_line :: pstr where
  "blank_line = [newline, newline]"

text \<open>The loop of \<open>split_by_tokens\<close>, lines 43-73, with the same state.\<close>

fun paragraph_loop ::
  "int \<Rightarrow> (pstr \<Rightarrow> int option) option \<Rightarrow> pstr list \<Rightarrow> pstr list \<Rightarrow> pstr \<Rightarrow> pstr list" where
  "paragraph_loop chunk_size llm_client [] chunks current_chunk =
     (if current_chunk \<noteq> [] then chunks @ [strip current_chunk] else chunks)"
| "paragraph_loop chunk_size llm_client (paragraph # rest) chunks current_chunk =
     (let test_chunk =
        (if current_chunk \<noteq> [] then current_chunk @ blank_line @ paragraph else paragraph)
      in if over_budget chunk_size llm_client test_chunk then
           (if current_chunk \<noteq> [] then
              paragraph_loop chunk_size llm_client rest (chunks @ [strip current_chunk]) paragraph
            else
              paragraph_loop chunk_size llm_client rest
                (chunks @ split_by_sentences chunk_size llm_client paragraph) current_chunk)
         else paragraph_loop chunk_size llm_client rest chunks test_chunk)"

text \<open>\<open>TextSplitter.split_by_tokens\<close>, lines 23-76.\<close>

definition split_by_tokens ::
  "int \<Rightarrow> (pstr \<Rightarrow> int option) option \<Rightarrow> pstr \<Rightarrow> pstr list" where
  "split_by_tokens chunk_size llm_client text =
     (case llm_client of
        Some api \<Rightarrow>
          if \<not> is_token_limit_exceeded api text chunk_size then [text]
          else paragraph_loop chunk_size llm_client (split_by_paragraphs text) [] []
      | None \<Rightarrow> paragraph_loop chunk_size llm_client (split_by_paragraphs text) [] [])"

text \<open>
  A string that \<open>strip\<close> leaves as it is: not empty, with no white space at either end.
\<close>

definition stripped :: "pstr \<Rightarrow> bool" where
  "stripped s \<longleftrightarrow> s \<noteq> [] \<and> \<not> is_space (hd s) \<and> \<not> is_space (last s)"

text \<open>
  A text of two paragraphs, \<open>ab\<close> and, after an empty line, two sentences of two letters
  \<open>cd\<close> and \<open>ef\<close>, each closed by the full stop U+3002.
\<close>

definition two_paragraph_text :: pstr where
  "two_paragraph_text = [97, 98, 10, 10, 99, 100, 12290, 101, 102, 12290]"

text \<open>
  The characters of a text that are neither white space nor sentence terminators, in
  their order.
\<close>

definition content :: "pstr \<Rightarrow> pstr" where
  "content s = filter (\<lambda>c. \<not> is_space c \<and> \<not> is_terminator c) s"

section \<open>Splitting a script for speech synthesis\<close>

text \<open>A string of ASCII characters as code points.\<close>

definition ascii :: "string \<Rightarrow> pstr" where
  "ascii s = map of_char s"

text \<open>
  The pattern \<open>\d\<close> of \<open>re\<close> on a \<open>str\<close> matches the decimal digits of Unicode (category
  Nd), which come in runs of ten from a zero digit; the table lists the zero digits of
  Unicode 14. \<open>int\<close> accepts the same digits, each with its value in its run.
\<close>

definition decimal_zeros :: "nat list" where
  "decimal_zeros =
     [48, 1632, 1776, 1984, 2406, 2534, 2662, 2790, 2918, 3046,
      3174, 3302, 3430, 3558, 3664, 3792, 3872, 4160, 4240, 6112,
      6160, 6470, 6608, 6784, 6800, 6992, 7088, 7232, 7248, 42528,
      43216, 43264, 43472, 43504, 43600, 44016, 65296, 66720, 68912, 69734,
      69872, 69942, 70096, 70384, 70736, 70864, 71248, 71360, 71472, 71904,
      72016, 72784, 73040, 73120, 92768, 92864, 93008, 120782, 120792, 120802,
      120812, 120822, 123200, 123632, 125264, 130032]"

definition is_decimal :: "nat \<Rightarrow> bool" where
  "is_decimal c = list_ex (\<lambda>z. z \<le> c \<and> c < z + 10) decimal_zeros"

text \<open>
  The match of line 102, \<open>re.match(r'^(Speaker \d+|S\d+):\s*(.+)$', line, re.MULTILINE)\<close>,
  on a stripped line without line feed: a label \<open>Speaker\<close> and a space, or \<open>S\<close>, then one
  digit or more, a colon, and at least one more character. A line that begins with
  \<open>Speaker\<close> and a space cannot match the second alternative, whose \<open>S\<close> is followed by a
  digit.
\<close>

definition after_label :: "pstr \<Rightarrow> pstr option" where
  "after_label line =
     (if startswith line (ascii ''Speaker '') then Some (drop 8 line)
      else if startswith line (ascii ''S'') then Some (drop 1 line)
      else None)"

definition is_speaker_line :: "pstr \<Rightarrow> bool" where
  "is_speaker_line line =
     (case after_label line of
        None \<Rightarrow> False
      | Some r \<Rightarrow>
          takeWhile is_decimal r \<noteq> []
          \<and> (case dropWhile is_decimal r of
                [] \<Rightarrow> False
              | c # utterance \<Rightarrow> c = 58 \<and> utterance \<noteq> []))"





text \<open>The sum of the estimates of the lines of a chunk, which the loop compares.\<close>

definition line_tokens_sum :: "pstr list \<Rightarrow> int" where
  "line_tokens_sum ls = sum_list (map estimate_tokens ls)"

text \<open>
  A chunk, as the list of its lines, in which every speaker line but the first line was
  added under the budget test: the estimates of the lines up to and including it sum to
  at most the budget.
\<close>

definition tested :: "int \<Rightarrow> pstr list \<Rightarrow> bool" where
  "tested chunk_size g \<longleftrightarrow>
     (\<forall>k. 0 < k \<and> k < length g \<and> is_speaker_line (g ! k)
          \<longrightarrow> line_tokens_sum (take (Suc k) g) \<le> chunk_size)"

section \<open>Script stage\<close>

text \<open>
  The intro markers of \<open>_remove_introduction\<close>, build_script.py lines 135-136: three
  Japanese words, of the code points U+3053 U+3093 U+306B U+3061 U+306F, U+306F U+3058
  U+3081 U+306B and U+4ECA U+56DE U+306F, and the English \<open>welcome\<close> and \<open>hello\<close>.
\<close>

definition intro_words :: "pstr list" where
  "intro_words =
     [[12371, 12435, 12395, 12385, 12399], [12399, 12376, 12417, 12395],
      [20170, 22238, 12399], ascii ''welcome'', ascii ''hello'']"

definition has_intro_word :: "pstr \<Rightarrow> bool" where
  "has_intro_word line = list_ex (\<lambda>intro_word. contains (lower line) intro_word) intro_words"

text \<open>The test of line 135: a line that is not blank and holds no intro marker.\<close>

definition is_body_line :: "pstr \<Rightarrow> bool" where
  "is_body_line line \<longleftrightarrow> strip line \<noteq> [] \<and> \<not> has_intro_word line"

text \<open>
  The loop of lines 133-138 over the lines from index \<open>i\<close> on: the index of the first
  body line, and the initial value 0 of \<open>start_index\<close> when the loop ends without one.
\<close>

fun find_start :: "pstr list \<Rightarrow> nat \<Rightarrow> nat" where
  "find_start [] i = 0"
| "find_start (line # rest) i = (if is_body_line line then i else find_start rest (Suc i))"

text \<open>\<open>_remove_introduction\<close>, lines 120-140.\<close>

definition remove_introduction :: "pstr \<Rightarrow> pstr" where
  "remove_introduction script =
     (let lines = split_lines script;
          start_index = find_start lines 0
      in join [newline] (drop start_index lines))"

text \<open>
  The loop of \<open>_merge_script_parts\<close>, lines 107-115, over the parts from index \<open>i\<close> on,
  with the list \<open>merged_script\<close> as its state.
\<close>

fun merge_loop :: "nat \<Rightarrow> pstr list \<Rightarrow> pstr list \<Rightarrow> pstr list" where
  "merge_loop i [] merged_script = merged_script"
| "merge_loop i (part # rest) merged_script =
     (if i = 0 then merge_loop (Suc i) rest (merged_script @ [part])
      else
        (let cleaned_part = remove_introduction part
         in if cleaned_part \<noteq> [] then
              merge_loop (Suc i) rest (merged_script @ [blank_line @ cleaned_part])
            else merge_loop (Suc i) rest merged_script))"

text \<open>\<open>_merge_script_parts\<close>, lines 88-117.\<close>

definition merge_script_parts :: "pstr list \<Rightarrow> pstr" where
  "merge_script_parts script_parts =
     (case script_parts of
        [] \<Rightarrow> []
      | [part] \<Rightarrow> part
      | part # rest \<Rightarrow> concat (merge_loop 0 script_parts []))"





text \<open>
  Fragments for illustration: \<open>Hello\<close>, a line of one space, the speaker line \<open>S1:x\<close> and
  \<open>hi\<close>, with the lines of this fragment; and a fragment of the two lines \<open>Hello\<close> and
  \<open>welcome\<close>.
\<close>

definition hello_fragment :: pstr where
  "hello_fragment = [72, 101, 108, 108, 111, 10, 32, 10, 83, 49, 58, 120, 10, 104, 105]"

definition hello_lines :: "pstr list" where
  "hello_lines = [[72, 101, 108, 108, 111], [32], [83, 49, 58, 120], [104, 105]]"

definition greetings_fragment :: pstr where
  "greetings_fragment = [72, 101, 108, 108, 111, 10, 119, 101, 108, 99, 111, 109, 101]"



section \<open>Raw audio to WAV\<close>

text \<open>
  \<open>int(s)\<close> for a string: white space around the number, an optional sign, and decimal
  digits of any script with single underscores between digits. The white space that
  \<open>int\<close> skips is that of \<open>str.strip\<close> without the four separators U+001C to U+001F.
  More than 4300 digits raise \<open>ValueError\<close> like any malformed string; the result is
  \<open>None\<close> then.
\<close>

definition is_int_space :: "nat \<Rightarrow> bool" where
  "is_int_space c \<longleftrightarrow> is_space c \<and> (c < 28 \<or> 31 < c)"

definition decimal_value :: "nat \<Rightarrow> nat" where
  "decimal_value c =
     (case filter (\<lambda>z. z \<le> c \<and> c < z + 10) decimal_zeros of
        [] \<Rightarrow> 0
      | z # zs \<Rightarrow> c - z)"

fun digits_value :: "pstr \<Rightarrow> nat \<Rightarrow> nat option" where
  "digits_value [] acc = Some acc"
| "digits_value (c # cs) acc =
     (if is_decimal c then digits_value cs (10 * acc + decimal_value c)
      else if c = 95 then
        (case cs of
           [] \<Rightarrow> None
         | d # ds \<Rightarrow> if is_decimal d then digits_value cs acc else None)
      else None)"

definition max_str_digits :: nat where
  "max_str_digits = 4300"

definition py_int :: "pstr \<Rightarrow> int option" where
  "py_int s =
     (let t = rev (dropWhile is_int_space (rev (dropWhile is_int_space s)));
          negative = (t \<noteq> [] \<and> hd t = 45);
          body = (if t \<noteq> [] \<and> (hd t = 45 \<or> hd t = 43) then tl t else t)
      in case body of
           [] \<Rightarrow> None
         | c # cs \<Rightarrow>
             if is_decimal c \<and> length (filter is_decimal body) \<le> max_str_digits then
               (case digits_value body 0 of
                  None \<Rightarrow> None
                | Some n \<Rightarrow> Some (if negative then - int n else int n))
             else None)"

text \<open>
  \<open>s.split(sep, 1)[1]\<close> for a separator of one character: the text after its first
  occurrence, and \<open>None\<close> for the \<open>IndexError\<close> when it does not occur.
\<close>

fun after_first :: "nat \<Rightarrow> pstr \<Rightarrow> pstr option" where
  "after_first sep [] = None"
| "after_first sep (c # cs) = (if c = sep then Some cs else after_first sep cs)"

text \<open>
  The loop of \<open>_parse_audio_mime_type\<close>, tts_client.py lines 212-224, over the parts of
  the MIME type, with \<open>bits_per_sample\<close> and \<open>rate\<close> as its state. Both exceptions of a
  \<open>try\<close> keep the value at hand.
\<close>

fun parse_params :: "pstr list \<Rightarrow> int \<Rightarrow> int \<Rightarrow> int \<times> int" where
  "parse_params [] bits_per_sample rate = (bits_per_sample, rate)"
| "parse_params (raw # rest) bits_per_sample rate =
     (let param = strip raw
      in if startswith (lower param) (ascii ''rate='') then
           (case after_first 61 param of
              None \<Rightarrow> parse_params rest bits_per_sample rate
            | Some rate_str \<Rightarrow>
                (case py_int rate_str of
                   None \<Rightarrow> parse_params rest bits_per_sample rate
                 | Some r \<Rightarrow> parse_params rest bits_per_sample r))
         else if startswith param (ascii ''audio/L'') then
           (case after_first 76 param of
              None \<Rightarrow> parse_params rest bits_per_sample rate
            | Some bits_str \<Rightarrow>
                (case py_int bits_str of
                   None \<Rightarrow> parse_params rest bits_per_sample rate
                 | Some b \<Rightarrow> parse_params rest b rate))
         else parse_params rest bits_per_sample rate)"

text \<open>\<open>TTSClient._parse_audio_mime_type\<close>, lines 197-226: the pair of both values.\<close>

definition parse_audio_mime_type :: "pstr \<Rightarrow> int \<times> int" where
  "parse_audio_mime_type mime_type =
     parse_params (split_where (\<lambda>c. c = 59) [] mime_type) 16 24000"

text \<open>
  \<open>struct.pack\<close> with a little-endian format: a byte string is copied, and an unsigned
  number of a given width is written low byte first when it fits the width and raises
  \<open>struct.error\<close> when it does not. Bytes are numbers below 256.
\<close>

datatype field = Bytes "nat list" | Unsigned nat int

definition le_bytes :: "nat \<Rightarrow> nat \<Rightarrow> nat list" where
  "le_bytes width n = map (\<lambda>i. (n div 256 ^ i) mod 256) [0 ..< width]"

fun pack :: "field list \<Rightarrow> exn + nat list" where
  "pack [] = Inr []"
| "pack (Bytes bs # others) =
     (case pack others of Inl e \<Rightarrow> Inl e | Inr packed \<Rightarrow> Inr (bs @ packed))"
| "pack (Unsigned width v # others) =
     (if 0 \<le> v \<and> v < 256 ^ width then
        (case pack others of
           Inl e \<Rightarrow> Inl e
         | Inr packed \<Rightarrow> Inr (le_bytes width (nat v) @ packed))
      else Inl StructError)"

text \<open>
  \<open>TTSClient._convert_to_wav\<close>, lines 156-195. The format of line 179 has the widths 4
  for \<open>I\<close> and 2 for \<open>H\<close>.
\<close>

definition convert_to_wav :: "nat list \<Rightarrow> pstr \<Rightarrow> exn + nat list" where
  "convert_to_wav audio_data mime_type =
     (let (bits_per_sample, sample_rate) = parse_audio_mime_type mime_type;
          num_channels = 1;
          data_size = int (length audio_data);
          bytes_per_sample = bits_per_sample div 8;
          block_align = num_channels * bytes_per_sample;
          byte_rate = sample_rate * block_align;
          chunk_size = 36 + data_size
      in case pack
           [Bytes (ascii ''RIFF''), Unsigned 4 chunk_size, Bytes (ascii ''WAVE''),
            Bytes (ascii ''fmt ''), Unsigned 4 16, Unsigned 2 1, Unsigned 2 num_channels,
            Unsigned 4 sample_rate, Unsigned 4 byte_rate, Unsigned 2 block_align,
            Unsigned 2 bits_per_sample, Bytes (ascii ''data''), Unsigned 4 data_size] of
           Inl e \<Rightarrow> Inl e
         | Inr header \<Rightarrow> Inr (header @ audio_data))"

text \<open>
  The values that the parts of a MIME type give to each parameter, in the order of the
  parts: those of the parts that begin with \<open>rate=\<close> in any case, and those of the other
  parts that begin with \<open>audio/L\<close>, in both cases when \<open>int\<close> accepts the text after the
  first \<open>=\<close> or \<open>L\<close>.
\<close>

definition mime_params :: "pstr \<Rightarrow> pstr list" where
  "mime_params mime_type = map strip (split_where (\<lambda>c. c = 59) [] mime_type)"

definition rate_value :: "pstr \<Rightarrow> int option" where
  "rate_value param =
     (if startswith (lower param) (ascii ''rate='') then
        (case after_first 61 param of None \<Rightarrow> None | Some rate_str \<Rightarrow> py_int rate_str)
      else None)"

definition bits_value :: "pstr \<Rightarrow> int option" where
  "bits_value param =
     (if startswith (lower param) (ascii ''rate='') then None
      else if startswith param (ascii ''audio/L'') then
        (case after_first 76 param of None \<Rightarrow> None | Some bits_str \<Rightarrow> py_int bits_str)
      else None)"

fun values_of :: "(pstr \<Rightarrow> int option) \<Rightarrow> pstr list \<Rightarrow> int list" where
  "values_of f [] = []"
| "values_of f (param # rest) =
     (case f param of None \<Rightarrow> values_of f rest | Some v \<Rightarrow> v # values_of f rest)"

section \<open>Ingestion\<close>
















section \<open>Verified properties\<close>

subsection \<open>The retry loop\<close>

lemma retry_loop_all_fail:
  assumes "\<forall>i. k \<le> i \<and> i < k + n \<longrightarrow> (\<exists>e. body i = Inl e \<and> is_Exception e)"
    and "0 < n" and "max_retries = int (k + n)"
  shows "retry_loop body final max_retries [k ..< k + n]
         = (failing_trace k n, body (k + n - 1))"
  using assms
proof (induction k n rule: failing_trace.induct)
  case (1 k)
  then show ?case by simp
next
  case (2 k)
  then obtain e where e: "body k = Inl e" "is_Exception e" by auto
  have "[k ..< k + Suc 0] = [k]" by simp
  with e 2 show ?case by simp
next
  case (3 k n)
  then obtain e where e: "body k = Inl e" "is_Exception e" by auto
  have up: "[k ..< k + Suc (Suc n)] = k # [Suc k ..< Suc k + Suc n]"
    by (simp add: upt_conv_Cons)
  have ih: "retry_loop body final max_retries [Suc k ..< Suc k + Suc n]
            = (failing_trace (Suc k) (Suc n), body (Suc k + Suc n - 1))"
    using 3 by (intro "3.IH") auto
  have lt: "int k < max_retries - 1" using 3 by simp
  show ?case
    unfolding up using e lt ih by simp
qed

lemma attempts_of_failing_trace: "attempts_of (failing_trace k n) = [k ..< k + n]"
  by (induction k n rule: failing_trace.induct) (auto simp: upt_conv_Cons)

lemma sleeps_of_failing_trace:
  "sleeps_of (failing_trace k n) = map (\<lambda>i. 2 ^ i) [k ..< k + n - 1]"
  by (induction k n rule: failing_trace.induct) (auto simp: upt_conv_Cons)

text \<open>
  Claim C8. When every attempt of a generation call fails with an exception that
  \<open>except Exception\<close> catches, and at least one attempt is configured, both clients make
  exactly \<open>max_retries\<close> attempts, numbered from 0, wait \<open>2 ^ attempt\<close> seconds after each
  attempt but the last, and raise the error of the last attempt to the caller.
\<close>

theorem retry_exhausted:
  assumes "0 < max_retries"
    and "\<forall>i < nat max_retries. \<exists>e. llm_attempt api i = Inl e \<and> is_Exception e"
    and "\<forall>i < nat max_retries. \<exists>e. tts_attempt stream i = Inl e \<and> is_Exception e"
  shows "fst (generate api max_retries) = failing_trace 0 (nat max_retries)
       \<and> attempts_of (fst (generate api max_retries)) = [0 ..< nat max_retries]
       \<and> sleeps_of (fst (generate api max_retries)) = map (\<lambda>i. 2 ^ i) [0 ..< nat max_retries - 1]
       \<and> (\<exists>e. llm_attempt api (nat max_retries - 1) = Inl e
              \<and> snd (generate api max_retries) = Inl e)
       \<and> fst (generate_audio stream max_retries) = failing_trace 0 (nat max_retries)
       \<and> attempts_of (fst (generate_audio stream max_retries)) = [0 ..< nat max_retries]
       \<and> sleeps_of (fst (generate_audio stream max_retries))
           = map (\<lambda>i. 2 ^ i) [0 ..< nat max_retries - 1]
       \<and> (\<exists>e. tts_attempt stream (nat max_retries - 1) = Inl e
              \<and> snd (generate_audio stream max_retries) = Inl e)"
proof -
  define n where "n = nat max_retries"
  have pos: "0 < n" using assms(1) by (simp add: n_def)
  have mx: "max_retries = int (0 + n)" using assms(1) by (simp add: n_def)
  have h1: "\<forall>i. 0 \<le> i \<and> i < 0 + n \<longrightarrow> (\<exists>e. llm_attempt api i = Inl e \<and> is_Exception e)"
    using assms(2) by (simp add: n_def)
  have h2: "\<forall>i. 0 \<le> i \<and> i < 0 + n \<longrightarrow> (\<exists>e. tts_attempt stream i = Inl e \<and> is_Exception e)"
    using assms(3) by (simp add: n_def)
  have llm: "generate api max_retries = (failing_trace 0 n, llm_attempt api (n - 1))"
    using retry_loop_all_fail [OF h1 pos mx, of LLMGenerationFailed]
    by (simp add: generate_def n_def [symmetric])
  have tts: "generate_audio stream max_retries = (failing_trace 0 n, tts_attempt stream (n - 1))"
    using retry_loop_all_fail [OF h2 pos mx, of TTSGenerationFailed]
    by (simp add: generate_audio_def n_def [symmetric])
  have last: "0 \<le> n - 1 \<and> n - 1 < 0 + n" using pos by simp
  obtain e1 where e1: "llm_attempt api (n - 1) = Inl e1" using h1 last by blast
  obtain e2 where e2: "tts_attempt stream (n - 1) = Inl e2" using h2 last by blast
  have att: "attempts_of (failing_trace 0 n) = [0 ..< n]"
    using attempts_of_failing_trace [of 0 n] by simp
  have slp: "sleeps_of (failing_trace 0 n) = map (\<lambda>i. 2 ^ i) [0 ..< n - 1]"
    using sleeps_of_failing_trace [of 0 n] by simp
  show ?thesis
    unfolding n_def [symmetric] llm tts fst_conv snd_conv att slp
    using e1 e2 by simp
qed

theorem retry_exhausted_witness:
  "0 < default_max_retries
   \<and> generate (\<lambda>k. Inl (ServiceException k)) default_max_retries
       = ([Attempt 0, Sleep 1, Attempt 1, Sleep 2, Attempt 2], Inl (ServiceException 2))
   \<and> attempts_of (fst (generate_audio (\<lambda>k. Inr ([]::nat list)) default_max_retries)) = [0, 1, 2]
   \<and> sleeps_of (fst (generate_audio (\<lambda>k. Inr ([]::nat list)) default_max_retries)) = [1, 2]
   \<and> snd (generate_audio (\<lambda>k. Inr ([]::nat list)) default_max_retries) = Inl NoAudioData"
proof -
  have pos: "0 < (3::int)" by simp
  have a: "\<forall>i < nat 3. \<exists>e. llm_attempt (\<lambda>k. Inl (ServiceException k)) i = Inl e \<and> is_Exception e"
    by (simp add: llm_attempt_def)
  have b: "\<forall>i < nat 3. \<exists>e. tts_attempt (\<lambda>k. Inr ([]::nat list)) i = Inl e \<and> is_Exception e"
    by (simp add: tts_attempt_def)
  have three: "failing_trace 0 (nat 3) = [Attempt 0, Sleep 1, Attempt 1, Sleep 2, Attempt 2]"
    by (simp add: numeral_3_eq_3)
  have upt: "[0 ..< nat 3] = [0, 1, 2]" "[0 ..< nat 3 - 1] = [0, 1]"
    by (simp_all add: numeral_3_eq_3 upt_rec)
  show ?thesis
    using retry_exhausted [OF pos a b] three upt
    by (simp add: default_max_retries_def llm_attempt_def tts_attempt_def prod_eq_iff)
qed

subsection \<open>The orchestrator\<close>

lemma build_audio_step_caught:
  assumes "build_audio env script_path (output_dir self) = Inl e" and "is_Exception e"
  shows "build_audio_step env script_path self
         = (self\<lparr>log := log self @ [StepAudio, AudioFailed e]\<rparr>, Inr None)"
  using assms by (simp add: build_audio_step_def add_log_def)

text \<open>
  Claim C7. In a run whose earlier stages succeed, an error raised by the audio stage is
  caught by the audio step: the run does not abort but returns the output directory, the
  audio entry of the ledger keeps the value it had before the run (unset for a new
  orchestrator), the other four entries hold what their stages returned, and the log
  continues after the audio failure with the email step (when mail is requested) and the
  final summary, which reports that same ledger.
\<close>

theorem audio_failure_is_soft:
  assumes dir: "make_output_dir env = Inr dir"
    and ing: "ingest_markdown env = Inr d" "write_input_copy env (Some dir) d = None"
    and scr: "build_script env (Some d) (Some dir) = Inr sp"
    and exp: "build_explainer env sp (Some dir) = Inr ep"
    and qst: "build_questions env sp (Some dir) = Inr (qp, fp)"
    and aud: "build_audio env sp (Some dir) = Inl e" "is_Exception e"
    and mail: "send_mail \<longrightarrow> (\<exists>r. send_email env (Some dir) d
                 ((results self0)\<lparr>res_script := Some sp, res_explanation := Some ep,
                    res_questions := Some qp, res_flashcards := fp\<rparr>) = r
                 \<and> (\<forall>x. r = Inl x \<longrightarrow> is_Exception x))"
  shows "\<exists>email_log.
           run_full_pipeline env send_mail self0 =
             (self0\<lparr>doc := Some d, output_dir := Some dir,
                 results := (results self0)\<lparr>res_script := Some sp, res_explanation := Some ep,
                    res_questions := Some qp, res_flashcards := fp\<rparr>,
                 log := log self0 @ [StepIngest, StepScript, StepExplainer, StepQuestions,
                          StepAudio, AudioFailed e] @ email_log @
                        [Summary ((results self0)\<lparr>res_script := Some sp,
                            res_explanation := Some ep, res_questions := Some qp,
                            res_flashcards := fp\<rparr>), PipelineDone]\<rparr>,
              Inr dir)
           \<and> (send_mail \<longrightarrow> email_log \<noteq> [] \<and> hd email_log = StepEmail)
           \<and> (\<not> send_mail \<longrightarrow> email_log = [])"
proof -
  let ?led = "(results self0)\<lparr>res_script := Some sp, res_explanation := Some ep,
                res_questions := Some qp, res_flashcards := fp\<rparr>"
  let ?s4 = "self0\<lparr>doc := Some d, output_dir := Some dir, results := ?led,
               log := log self0 @ [StepIngest, StepScript, StepExplainer, StepQuestions]\<rparr>"
  let ?s5 = "?s4\<lparr>log := log ?s4 @ [StepAudio, AudioFailed e]\<rparr>"
  have s1: "ingest_step env (self0\<lparr>output_dir := Some dir\<rparr>)
            = (self0\<lparr>output_dir := Some dir, log := log self0 @ [StepIngest]\<rparr>, Inr d)"
    using ing by (simp add: ingest_step_def add_log_def)
  have s2: "build_script_step env
              (self0\<lparr>output_dir := Some dir, log := log self0 @ [StepIngest], doc := Some d\<rparr>)
            = (self0\<lparr>doc := Some d, output_dir := Some dir,
                  results := (results self0)\<lparr>res_script := Some sp\<rparr>,
                  log := log self0 @ [StepIngest, StepScript]\<rparr>, Inr sp)"
    using scr by (simp add: build_script_step_def add_log_def)
  have s3: "build_explainer_step env sp
              (self0\<lparr>doc := Some d, output_dir := Some dir,
                  results := (results self0)\<lparr>res_script := Some sp\<rparr>,
                  log := log self0 @ [StepIngest, StepScript]\<rparr>)
            = (self0\<lparr>doc := Some d, output_dir := Some dir,
                  results := (results self0)\<lparr>res_script := Some sp, res_explanation := Some ep\<rparr>,
                  log := log self0 @ [StepIngest, StepScript, StepExplainer]\<rparr>, Inr ep)"
    using exp by (simp add: build_explainer_step_def add_log_def)
  have s4: "build_questions_step env sp
              (self0\<lparr>doc := Some d, output_dir := Some dir,
                  results := (results self0)\<lparr>res_script := Some sp, res_explanation := Some ep\<rparr>,
                  log := log self0 @ [StepIngest, StepScript, StepExplainer]\<rparr>)
            = (?s4, Inr (qp, fp))"
    using qst by (simp add: build_questions_step_def add_log_def)
  have s5: "build_audio_step env sp ?s4 = (?s5, Inr None)"
    using build_audio_step_caught [of env sp ?s4 e] aud by simp
  show ?thesis
  proof (cases send_mail)
    case False
    have "run_full_pipeline env send_mail self0
          = (add_log PipelineDone (print_summary ?s5), Inr dir)"
      using False dir s1 s2 s3 s4 s5 by (simp add: run_full_pipeline_def)
    then show ?thesis
      using False
      by (intro exI [of _ "[]"]) (simp add: print_summary_def add_log_def)
  next
    case True
    then obtain r where r: "send_email env (Some dir) d ?led = r"
      "\<forall>x. r = Inl x \<longrightarrow> is_Exception x" using mail by blast
    show ?thesis
    proof (cases r)
      case (Inr success)
      have s6: "send_email_step env ?s5 = (?s5\<lparr>log := log ?s5 @ [StepEmail]\<rparr>, Inr success)"
        using r Inr by (simp add: send_email_step_def add_log_def)
      have "run_full_pipeline env send_mail self0
            = (add_log PipelineDone (print_summary (?s5\<lparr>log := log ?s5 @ [StepEmail]\<rparr>)), Inr dir)"
        using True dir s1 s2 s3 s4 s5 s6 by (simp add: run_full_pipeline_def)
      then show ?thesis
        using True
        by (intro exI [of _ "[StepEmail]"]) (simp add: print_summary_def add_log_def)
    next
      case (Inl x)
      then have x: "is_Exception x" using r by blast
      have s6: "send_email_step env ?s5
                = (?s5\<lparr>log := log ?s5 @ [StepEmail, EmailFailed]\<rparr>, Inr False)"
        using r Inl x by (simp add: send_email_step_def add_log_def)
      have "run_full_pipeline env send_mail self0
            = (add_log PipelineDone
                 (print_summary (?s5\<lparr>log := log ?s5 @ [StepEmail, EmailFailed]\<rparr>)), Inr dir)"
        using True dir s1 s2 s3 s4 s5 s6 by (simp add: run_full_pipeline_def)
      then show ?thesis
        using True
        by (intro exI [of _ "[StepEmail, EmailFailed]"]) (simp add: print_summary_def add_log_def)
    qed
  qed
qed

theorem audio_failure_is_soft_witness:
  "build_audio audio_failing_stages [2] (Some [1]) = Inl (ServiceException 7)
   \<and> is_Exception (ServiceException 7)
   \<and> snd (run_full_pipeline audio_failing_stages True init_orchestrator) = Inr [1]
   \<and> results (fst (run_full_pipeline audio_failing_stages True init_orchestrator))
       = \<lparr>res_script = Some [2], res_explanation = Some [3], res_questions = Some [4],
          res_flashcards = Some [5], res_audio = None\<rparr>
   \<and> last (log (fst (run_full_pipeline audio_failing_stages True init_orchestrator)))
       = PipelineDone"
proof -
  have mail: "True \<longrightarrow> (\<exists>r. send_email audio_failing_stages (Some [1]) 0
                 ((results (init_orchestrator :: nat orchestrator))\<lparr>res_script := Some [2],
                    res_explanation := Some [3], res_questions := Some [4],
                    res_flashcards := Some [5]\<rparr>) = r
                 \<and> (\<forall>x. r = Inl x \<longrightarrow> is_Exception x))"
    by (simp add: audio_failing_stages_def)
  have h1: "make_output_dir audio_failing_stages = Inr [1]"
    and h2: "ingest_markdown audio_failing_stages = Inr 0"
    and h3: "write_input_copy audio_failing_stages (Some [1]) 0 = None"
    and h4: "build_script audio_failing_stages (Some 0) (Some [1]) = Inr [2]"
    and h5: "build_explainer audio_failing_stages [2] (Some [1]) = Inr [3]"
    and h6: "build_questions audio_failing_stages [2] (Some [1]) = Inr ([4], Some [5])"
    and h7: "build_audio audio_failing_stages [2] (Some [1]) = Inl (ServiceException 7)"
    and h8: "is_Exception (ServiceException 7)"
    by (simp_all add: audio_failing_stages_def)
  from audio_failure_is_soft [OF h1 h2 h3 h4 h5 h6 h7 h8 mail]
  show ?thesis
    using h7 by (auto simp: init_orchestrator_def)
qed

subsection \<open>Evaluating the token estimate\<close>

lemma bit_length_0: "bit_length 0 = 0"
  by (simp add: bit_length.simps)

lemma bit_length_eq: "2 ^ k \<le> n \<Longrightarrow> n < 2 ^ Suc k \<Longrightarrow> bit_length n = Suc k"
proof (induction k arbitrary: n)
  case 0
  then have "n = 1" by simp
  then show ?case by (simp add: bit_length.simps [of "Suc 0"] bit_length_0)
next
  case (Suc k)
  have "2 ^ k \<le> n div 2" using Suc.prems(1) by simp
  moreover have "n div 2 < 2 ^ Suc k" using Suc.prems(2) by simp
  ultimately have "bit_length (n div 2) = Suc k" by (rule Suc.IH)
  moreover have "n \<noteq> 0"
  proof
    assume "n = 0"
    with Suc.prems(1) show False by simp
  qed
  ultimately show ?case by (simp add: bit_length.simps [of n])
qed

lemma round_to_53_small: "p < 2 ^ 53 \<Longrightarrow> round_to_53 p = (p, 0)"
proof (cases "p = 0")
  case True
  then show ?thesis by (simp add: round_to_53_def bit_length_0)
next
  case False
  assume p: "p < 2 ^ 53"
  obtain k where k: "2 ^ k \<le> p" "p < 2 ^ Suc k"
    using False ex_power_ivl1 [of 2 p] by auto
  have "k < 53"
  proof (rule ccontr)
    assume "\<not> k < 53"
    then have "(2::nat) ^ 53 \<le> 2 ^ k" by (intro power_increasing) simp_all
    with k(1) p show False by linarith
  qed
  then show ?thesis using bit_length_eq [OF k] by (simp add: round_to_53_def)
qed

lemma round_to_53_large:
  assumes "2 ^ (52 + s) \<le> p" and "p < 2 ^ (53 + s)" and "0 < s"
  shows "round_to_53 p =
           (if 2 * (p mod 2 ^ s) > 2 ^ s \<or> (2 * (p mod 2 ^ s) = 2 ^ s \<and> odd (p div 2 ^ s))
            then (p div 2 ^ s + 1, s) else (p div 2 ^ s, s))"
proof -
  have "bit_length p = Suc (52 + s)"
    using assms by (intro bit_length_eq) simp_all
  then have "bit_length p - 53 = s" by simp
  then show ?thesis using assms(3) by (simp add: round_to_53_def Let_def)
qed

text \<open>The estimate for the short strings of the examples below.\<close>

lemma times_07_2: "times_07 2 = 1"
proof -
  have a: "round_to_53 2 = (2, 0)" by (rule round_to_53_small) simp
  have b: "round_to_53 (2 * double_07) = (6305039478318694, 1)"
    using round_to_53_large [of 1 "2 * double_07"] by (simp add: double_07_def)
  show ?thesis by (simp add: times_07_def a b)
qed

lemma times_07_3: "times_07 3 = 2"
proof -
  have a: "round_to_53 3 = (3, 0)" by (rule round_to_53_small) simp
  have b: "round_to_53 (3 * double_07) = (4728779608739020, 2)"
    using round_to_53_large [of 2 "3 * double_07"] by (simp add: double_07_def)
  show ?thesis by (simp add: times_07_def a b)
qed

lemma times_07_4: "times_07 4 = 2"
proof -
  have a: "round_to_53 4 = (4, 0)" by (rule round_to_53_small) simp
  have b: "round_to_53 (4 * double_07) = (6305039478318694, 2)"
    using round_to_53_large [of 2 "4 * double_07"] by (simp add: double_07_def)
  show ?thesis by (simp add: times_07_def a b)
qed

lemma times_07_5: "times_07 5 = 3"
proof -
  have a: "round_to_53 5 = (5, 0)" by (rule round_to_53_small) simp
  have b: "round_to_53 (5 * double_07) = (7881299347898368, 2)"
    using round_to_53_large [of 2 "5 * double_07"] by (simp add: double_07_def)
  show ?thesis by (simp add: times_07_def a b)
qed

lemma times_07_6: "times_07 6 = 4"
proof -
  have a: "round_to_53 6 = (6, 0)" by (rule round_to_53_small) simp
  have b: "round_to_53 (6 * double_07) = (4728779608739020, 3)"
    using round_to_53_large [of 3 "6 * double_07"] by (simp add: double_07_def)
  show ?thesis by (simp add: times_07_def a b)
qed

lemma times_07_7: "times_07 7 = 4"
proof -
  have a: "round_to_53 7 = (7, 0)" by (rule round_to_53_small) simp
  have b: "round_to_53 (7 * double_07) = (5516909543528857, 3)"
    using round_to_53_large [of 3 "7 * double_07"] by (simp add: double_07_def)
  show ?thesis by (simp add: times_07_def a b)
qed

lemma times_07_8: "times_07 8 = 5"
proof -
  have a: "round_to_53 8 = (8, 0)" by (rule round_to_53_small) simp
  have b: "round_to_53 (8 * double_07) = (6305039478318694, 3)"
    using round_to_53_large [of 3 "8 * double_07"] by (simp add: double_07_def)
  show ?thesis by (simp add: times_07_def a b)
qed

lemma times_07_9: "times_07 9 = 6"
proof -
  have a: "round_to_53 9 = (9, 0)" by (rule round_to_53_small) simp
  have b: "round_to_53 (9 * double_07) = (7093169413108531, 3)"
    using round_to_53_large [of 3 "9 * double_07"] by (simp add: double_07_def)
  show ?thesis by (simp add: times_07_def a b)
qed

lemma times_07_10: "times_07 10 = 7"
proof -
  have a: "round_to_53 10 = (10, 0)" by (rule round_to_53_small) simp
  have b: "round_to_53 (10 * double_07) = (7881299347898368, 3)"
    using round_to_53_large [of 3 "10 * double_07"] by (simp add: double_07_def)
  show ?thesis by (simp add: times_07_def a b)
qed

lemma times_07_0: "times_07 0 = 0"
proof -
  have a: "round_to_53 0 = (0, 0)" by (rule round_to_53_small) simp
  show ?thesis by (simp add: times_07_def a)
qed

lemma times_07_1: "times_07 1 = 0"
proof -
  have a: "round_to_53 1 = (1, 0)" by (rule round_to_53_small) simp
  have b: "round_to_53 6305039478318694 = (6305039478318694, 0)"
    by (rule round_to_53_small) simp
  show ?thesis using a b by (simp add: times_07_def double_07_def)
qed

lemmas times_07_table =
  times_07_0 times_07_1 times_07_2 times_07_3 times_07_4 times_07_5 times_07_6 times_07_7 times_07_8 times_07_9 times_07_10

subsection \<open>The chunk budget\<close>

lemma strip_stripped: "stripped s \<Longrightarrow> strip s = s"
proof -
  assume s: "stripped s"
  then obtain c cs where cs: "s = c # cs" "\<not> is_space c"
    by (cases s) (auto simp: stripped_def)
  have 1: "dropWhile is_space s = s" using cs by simp
  have "rev s \<noteq> []" "\<not> is_space (hd (rev s))"
    using s by (auto simp: stripped_def hd_rev)
  then have 2: "dropWhile is_space (rev s) = rev s"
    by (cases "rev s") auto
  show ?thesis by (simp add: strip_def 1 2)
qed

lemma strip_cases: "strip s = [] \<or> stripped (strip s)"
proof (cases "strip s = []")
  case False
  let ?a = "dropWhile is_space s"
  let ?b = "dropWhile is_space (rev ?a)"
  have b: "?b \<noteq> []" using False by (simp add: strip_def)
  then have hb: "\<not> is_space (hd ?b)" by (rule hd_dropWhile)
  have "?a \<noteq> []"
  proof
    assume "?a = []"
    then have "?b = []" by (simp only: rev.simps dropWhile.simps)
    with b show False by blast
  qed
  then have ha: "\<not> is_space (hd ?a)" by (rule hd_dropWhile)
  obtain ys where ys: "rev ?a = ys @ ?b"
    by (metis takeWhile_dropWhile_id)
  then have "?a = rev ?b @ rev ys" by (metis rev_append rev_rev_ident)
  then have "hd (rev ?b) = hd ?a" using b by (metis hd_append2 rev_is_Nil_conv)
  then have h1: "\<not> is_space (hd (strip s))" using ha by (simp add: strip_def)
  have h2: "\<not> is_space (last (strip s))" using hb b by (simp add: strip_def last_rev)
  show ?thesis using False h1 h2 by (simp add: stripped_def)
qed simp

lemma stripped_append: "stripped a \<Longrightarrow> stripped b \<Longrightarrow> stripped (a @ m @ b)"
  by (auto simp: stripped_def hd_append)

lemma stripped_append2: "stripped a \<Longrightarrow> stripped b \<Longrightarrow> stripped (a @ b)"
  using stripped_append [of a b "[]"] by simp

lemma paragraphs_stripped: "p \<in> set (split_by_paragraphs text) \<Longrightarrow> stripped p"
  using strip_cases by (auto simp: split_by_paragraphs_def)

lemma full_stop_not_space: "\<not> is_space full_stop"
  by (simp add: is_space_def full_stop_def)

lemma sentences_stripped: "s \<in> set (sentences_of text) \<Longrightarrow> stripped s"
proof -
  assume "s \<in> set (sentences_of text)"
  then obtain t where t: "s = strip t @ [full_stop]" "strip t \<noteq> []"
    by (auto simp: sentences_of_def)
  then have "stripped (strip t)" using strip_cases by blast
  then show ?thesis using t full_stop_not_space by (auto simp: stripped_def)
qed

lemma over_budget_cost: "over_budget chunk_size llm_client t \<longleftrightarrow> cost llm_client t > chunk_size"
  by (simp add: over_budget_def cost_def is_token_limit_exceeded_def split: option.splits)

lemma sentence_loop_inv:
  assumes "\<forall>c \<in> set chunks. Q c"
    and "cur = [] \<or> (stripped cur \<and> Q cur)"
    and "\<forall>s \<in> set ss. stripped s \<and> Q s"
    and "\<And>t. cost llm_client t \<le> chunk_size \<Longrightarrow> Q t"
  shows "\<forall>c \<in> set (sentence_loop chunk_size llm_client ss chunks cur). Q c"
  using assms(1,2,3)
proof (induction ss arbitrary: chunks cur)
  case Nil
  then show ?case by (auto simp: strip_stripped)
next
  case (Cons s ss)
  let ?test = "if cur \<noteq> [] then cur @ s else s"
  have s: "stripped s" "Q s" using Cons.prems(3) by auto
  have rest: "\<forall>x \<in> set ss. stripped x \<and> Q x" using Cons.prems(3) by auto
  show ?case
  proof (cases "over_budget chunk_size llm_client ?test")
    case True
    show ?thesis
    proof (cases "cur = []")
      case True
      have "\<forall>c \<in> set (chunks @ [s]). Q c" using Cons.prems(1) s by auto
      from Cons.IH [OF this _ rest, of "[]"] True \<open>over_budget chunk_size llm_client ?test\<close>
      show ?thesis by simp
    next
      case False
      then have c: "stripped cur" "Q cur" using Cons.prems(2) by auto
      have "\<forall>c \<in> set (chunks @ [strip cur]). Q c"
        using Cons.prems(1) c by (auto simp: strip_stripped)
      from Cons.IH [OF this _ rest, of s] s False \<open>over_budget chunk_size llm_client ?test\<close>
      show ?thesis by simp
    qed
  next
    case False
    then have "cost llm_client ?test \<le> chunk_size" by (simp add: over_budget_cost)
    then have q: "Q ?test" by (rule assms(4))
    have st: "stripped ?test"
      using s Cons.prems(2) by (auto intro: stripped_append2)
    from Cons.IH [OF Cons.prems(1) _ rest, of ?test] q st False
    show ?thesis by (simp add: Let_def)
  qed
qed


lemma paragraph_loop_inv:
  assumes "\<forall>c \<in> set chunks. Q c"
    and "cur = [] \<or> (stripped cur \<and> Q cur)"
    and "\<forall>p \<in> set ps. stripped p \<and> Q p
           \<and> (\<forall>c \<in> set (split_by_sentences chunk_size llm_client p). Q c)"
    and "\<And>t. cost llm_client t \<le> chunk_size \<Longrightarrow> Q t"
  shows "\<forall>c \<in> set (paragraph_loop chunk_size llm_client ps chunks cur). Q c"
  using assms(1,2,3)
proof (induction ps arbitrary: chunks cur)
  case Nil
  then show ?case by (auto simp: strip_stripped)
next
  case (Cons p ps)
  let ?test = "if cur \<noteq> [] then cur @ blank_line @ p else p"
  have p: "stripped p" "Q p" "\<forall>c \<in> set (split_by_sentences chunk_size llm_client p). Q c"
    using Cons.prems(3) by auto
  have rest: "\<forall>x \<in> set ps. stripped x \<and> Q x
           \<and> (\<forall>c \<in> set (split_by_sentences chunk_size llm_client x). Q c)"
    using Cons.prems(3) by auto
  show ?case
  proof (cases "over_budget chunk_size llm_client ?test")
    case True
    show ?thesis
    proof (cases "cur = []")
      case True
      have "\<forall>c \<in> set (chunks @ split_by_sentences chunk_size llm_client p). Q c"
        using Cons.prems(1) p by auto
      from Cons.IH [OF this _ rest, of "[]"] True \<open>over_budget chunk_size llm_client ?test\<close>
      show ?thesis by simp
    next
      case False
      then have c: "stripped cur" "Q cur" using Cons.prems(2) by auto
      have "\<forall>c \<in> set (chunks @ [strip cur]). Q c"
        using Cons.prems(1) c by (auto simp: strip_stripped)
      from Cons.IH [OF this _ rest, of p] p False \<open>over_budget chunk_size llm_client ?test\<close>
      show ?thesis by simp
    qed
  next
    case False
    then have "cost llm_client ?test \<le> chunk_size" by (simp add: over_budget_cost)
    then have q: "Q ?test" by (rule assms(4))
    have st: "stripped ?test"
      using p Cons.prems(2) by (auto intro: stripped_append)
    from Cons.IH [OF Cons.prems(1) _ rest, of ?test] q st False
    show ?thesis by (simp add: Let_def)
  qed
qed

lemma split_by_sentences_inv:
  assumes "c \<in> set (split_by_sentences chunk_size llm_client p)"
  shows "cost llm_client c \<le> chunk_size \<or> c = p \<or> c \<in> set (sentences_of p)"
proof (cases "sentences_of p = []")
  case True
  then show ?thesis using assms by (simp add: split_by_sentences_def)
next
  case False
  let ?Q = "\<lambda>c. cost llm_client c \<le> chunk_size \<or> c = p \<or> c \<in> set (sentences_of p)"
  have "\<forall>c \<in> set (sentence_loop chunk_size llm_client (sentences_of p) [] []). ?Q c"
    by (rule sentence_loop_inv) (auto simp: sentences_stripped)
  then show ?thesis using assms False by (simp add: split_by_sentences_def)
qed

text \<open>
  A chunk over the budget is one whole paragraph of the text or one sentence of a
  paragraph: every chunk that the loops assemble from several units passed the budget
  test as a whole.
\<close>

lemma chunk_over_budget_is_unit:
  assumes "c \<in> set (split_by_tokens chunk_size llm_client text)"
  shows "cost llm_client c \<le> chunk_size
       \<or> c \<in> set (split_by_paragraphs text)
       \<or> (\<exists>p \<in> set (split_by_paragraphs text). c \<in> set (sentences_of p))"
proof -
  let ?Q = "\<lambda>c. cost llm_client c \<le> chunk_size
       \<or> c \<in> set (split_by_paragraphs text)
       \<or> (\<exists>p \<in> set (split_by_paragraphs text). c \<in> set (sentences_of p))"
  have loop: "\<forall>c \<in> set (paragraph_loop chunk_size llm_client (split_by_paragraphs text) [] []). ?Q c"
  proof (rule paragraph_loop_inv)
    show "\<forall>p \<in> set (split_by_paragraphs text). stripped p \<and> ?Q p
           \<and> (\<forall>c \<in> set (split_by_sentences chunk_size llm_client p). ?Q c)"
      using paragraphs_stripped split_by_sentences_inv by blast
  qed simp_all
  show ?thesis
  proof (cases llm_client)
    case None
    then show ?thesis using assms loop by (simp add: split_by_tokens_def)
  next
    case (Some api)
    show ?thesis
    proof (cases "is_token_limit_exceeded api text chunk_size")
      case True
      then show ?thesis using assms loop Some by (simp add: split_by_tokens_def)
    next
      case False
      then have "c = text" "cost llm_client text \<le> chunk_size"
        using assms Some by (simp_all add: split_by_tokens_def cost_def is_token_limit_exceeded_def)
      then show ?thesis by simp
    qed
  qed
qed


lemma estimate_tokens_length: "length t = n \<Longrightarrow> estimate_tokens t = int (times_07 n)"
  by (simp add: estimate_tokens_def)

lemma ex_paragraphs:
  "split_by_paragraphs two_paragraph_text = [[97, 98], [99, 100, 12290, 101, 102, 12290]]"
  by (simp add: two_paragraph_text_def split_by_paragraphs_def strip_def is_space_def newline_def)

lemma ex_sentences:
  "sentences_of [99, 100, 12290, 101, 102, 12290] = [[99, 100, 12290], [101, 102, 12290]]"
  by (simp add: sentences_of_def strip_def is_space_def is_terminator_def full_stop_def)

lemma ex_est:
  "estimate_tokens [97, 98] = 1"
  "estimate_tokens [97, 98, 10, 10, 99, 100, 12290, 101, 102, 12290] = 7"
  "estimate_tokens [99, 100, 12290, 101, 102, 12290] = 4"
  "estimate_tokens [99, 100, 12290] = 2"
  "estimate_tokens [101, 102, 12290] = 2"
  by (simp_all add: estimate_tokens_length [where n = 2] estimate_tokens_length [where n = 10]
      estimate_tokens_length [where n = 6] estimate_tokens_length [where n = 3] times_07_table)

lemma ex_split:
  "split_by_tokens 3 None two_paragraph_text = [[97, 98], [99, 100, 12290, 101, 102, 12290]]"
  by (simp add: split_by_tokens_def ex_paragraphs over_budget_def blank_line_def newline_def
      ex_est strip_def is_space_def)


text \<open>
  Claim C1. The claim excepts a chunk that is a single paragraph or a single sentence
  and requires that a chunk spanning several sentences never exceeds the budget. With
  budget 3 and no client, the text of two paragraphs above yields the chunks \<open>ab\<close> and the
  whole second paragraph, whose estimate 4 exceeds the budget although it consists of
  two sentences of estimate 2 each: the paragraph arrives while the running chunk is not
  empty, so it becomes the running chunk untested (lines 50-52) and is never split by
  sentence, which lines 54-56 do for a paragraph that arrives at an empty running chunk,
  as the last equation shows for this paragraph.
\<close>

theorem oversized_paragraph_kept_whole:
  "split_by_tokens 3 None two_paragraph_text = [[97, 98], [99, 100, 12290, 101, 102, 12290]]
   \<and> cost None [99, 100, 12290, 101, 102, 12290] = 4
   \<and> sentences_of [99, 100, 12290, 101, 102, 12290] = [[99, 100, 12290], [101, 102, 12290]]
   \<and> cost None [99, 100, 12290] = 2 \<and> cost None [101, 102, 12290] = 2
   \<and> split_by_sentences 3 None [99, 100, 12290, 101, 102, 12290]
       = [[99, 100, 12290], [101, 102, 12290]]"
  by (simp add: ex_split ex_sentences cost_def ex_est split_by_sentences_def over_budget_def
      estimate_tokens_length [where n = 6] times_07_table strip_def is_space_def)

subsection \<open>Reassembly of the chunks\<close>

lemma content_append: "content (a @ b) = content a @ content b"
  by (simp add: content_def)

lemma content_Nil: "content [] = []"
  by (simp add: content_def)

lemma content_spaces: "\<forall>c \<in> set ws. is_space c \<Longrightarrow> content ws = []"
  by (induction ws) (auto simp: content_def)

lemma content_dropWhile: "content (dropWhile is_space s) = content s"
  by (induction s) (auto simp: content_def)

lemma content_rev: "content (rev s) = rev (content s)"
  by (simp add: content_def rev_filter)

lemma content_strip: "content (strip s) = content s"
  by (simp add: strip_def content_rev content_dropWhile)

lemma match_ws_nl_spaces:
  "match_ws_nl s = Some r \<Longrightarrow> \<exists>ws. s = ws @ r \<and> (\<forall>c \<in> set ws. is_space c)"
proof (induction s arbitrary: r)
  case Nil
  then show ?case by simp
next
  case (Cons c cs)
  then have sp: "is_space c" by (auto split: if_splits)
  show ?case
  proof (cases "match_ws_nl cs")
    case None
    then have "r = cs" using Cons.prems sp by (auto split: if_splits)
    then show ?thesis using sp by (intro exI [of _ "[c]"]) simp
  next
    case (Some r')
    then have "r' = r" using Cons.prems sp by simp
    then obtain ws where "cs = ws @ r" "\<forall>c \<in> set ws. is_space c"
      using Cons.IH Some by blast
    then show ?thesis using sp by (intro exI [of _ "c # ws"]) simp
  qed
qed

lemma content_match_ws_nl: "match_ws_nl s = Some r \<Longrightarrow> content s = content r"
  using match_ws_nl_spaces [of s r] by (auto simp: content_append content_spaces)

lemma newline_space: "is_space newline"
  by (simp add: is_space_def newline_def)

lemma content_re_split_blank:
  "content (concat (re_split_blank cur s)) = content (cur @ s)"
proof (induction cur s rule: re_split_blank.induct)
  case (1 cur)
  then show ?case by simp
next
  case (2 cur c cs)
  show ?case
  proof (cases "c = newline")
    case False
    then show ?thesis using 2 by simp
  next
    case True
    show ?thesis
    proof (cases "match_ws_nl cs")
      case None
      then show ?thesis using 2 True by simp
    next
      case (Some r)
      have "content (c # cs) = content r"
        using content_match_ws_nl [OF Some] True newline_space by (simp add: content_def)
      then show ?thesis
        using 2(2) [OF True Some] Some True content_append [of cur "c # cs"]
        by (simp add: content_append)
    qed
  qed
qed

lemma content_concat_map_strip:
  "content (concat (filter (\<lambda>p. p \<noteq> []) (map strip ps))) = content (concat ps)"
  by (induction ps) (auto simp: content_append content_strip content_Nil
      simp del: append_Nil2 dest: arg_cong [where f = content])


lemma content_split_by_paragraphs: "content (concat (split_by_paragraphs text)) = content text"
  using content_re_split_blank [of "[]" "text"]
  by (simp add: split_by_paragraphs_def content_concat_map_strip)

lemma content_split_where:
  "content (concat (split_where is_terminator cur s)) = content (cur @ s)"
  by (induction s arbitrary: cur) (auto simp: content_append, auto simp: content_def)

lemma content_full_stop: "content (s @ [full_stop]) = content s"
  by (simp add: content_def is_terminator_def full_stop_def)

lemma content_stop: "content (full_stop # s) = content s"
  by (simp add: content_def is_terminator_def full_stop_def)

lemma content_concat_add_stop:
  "content (concat (map (\<lambda>s. s @ [full_stop]) ps)) = content (concat ps)"
  by (induction ps) (auto simp: content_append content_stop)

lemma content_sentences_of: "content (concat (sentences_of text)) = content text"
  using content_split_where [of "[]" "text"]
  by (simp add: sentences_of_def content_concat_add_stop content_concat_map_strip)

lemma content_sentence_loop:
  "content (concat (sentence_loop chunk_size llm_client ss chunks cur))
   = content (concat chunks) @ content cur @ content (concat ss)"
  by (induction ss arbitrary: chunks cur)
     (auto simp: content_append content_strip Let_def content_Nil)

lemma content_split_by_sentences:
  "content (concat (split_by_sentences chunk_size llm_client text)) = content text"
  by (simp add: split_by_sentences_def Let_def content_sentence_loop content_sentences_of
      content_Nil)

lemma content_blank_line: "content blank_line = []"
  by (simp add: blank_line_def content_def newline_space)

lemma content_paragraph_loop:
  "content (concat (paragraph_loop chunk_size llm_client ps chunks cur))
   = content (concat chunks) @ content cur @ content (concat ps)"
  by (induction ps arbitrary: chunks cur)
     (auto simp: content_append content_strip Let_def content_Nil content_blank_line
        content_split_by_sentences)

lemma ex2_est:
  "estimate_tokens [12354, 65281, 12356] = 2"
  "estimate_tokens [12354, 12290] = 1"
  "estimate_tokens [12356, 12290] = 1"
  "estimate_tokens [12354, 12290, 12356, 12290] = 2"
  by (simp_all add: estimate_tokens_length [where n = 2] estimate_tokens_length [where n = 3]
      estimate_tokens_length [where n = 4] times_07_table)

lemma ex2_split:
  "split_by_tokens 1 None [12354, 65281, 12356] = [[12354, 12290], [12356, 12290]]"
  by (simp add: split_by_tokens_def split_by_paragraphs_def split_by_sentences_def
      sentences_of_def over_budget_def ex2_est strip_def is_space_def newline_def
      is_terminator_def full_stop_def)

text \<open>
  Claim C2, as stated, fails: with budget 1 and no client the text of the letter U+3042,
  the fullwidth exclamation mark U+FF01 and the letter U+3044 is split by sentence into
  two chunks that end in the full stop U+3002, and the exclamation mark of the text is in
  no chunk.
\<close>

theorem terminator_replaced:
  "split_by_tokens 1 None [12354, 65281, 12356] = [[12354, 12290], [12356, 12290]]
   \<and> 65281 \<in> set [12354, 65281, 12356]
   \<and> 65281 \<notin> set (concat (split_by_tokens 1 None [12354, 65281, 12356]))"
  by (simp add: ex2_split)

text \<open>
  Claim C2, amended. The chunks of \<open>split_by_tokens\<close>, concatenated, hold the characters
  of the text other than white space and the sentence terminators U+3002, U+FF01 and
  U+FF1F, all of them and in their order, and beside these only white space and
  terminators: white space around paragraphs and sentences is stripped, and a paragraph
  that is split by sentence has each terminator replaced by U+3002.
\<close>

theorem chunks_keep_content:
  "content (concat (split_by_tokens chunk_size llm_client text)) = content text"
  by (cases llm_client)
     (simp_all add: split_by_tokens_def content_paragraph_loop content_split_by_paragraphs
        content_Nil)

theorem chunks_keep_content_witness:
  "content (concat (split_by_tokens 1 None [12354, 65281, 12356])) = [12354, 12356]
   \<and> content [12354, 65281, 12356] = [12354, 12356]"
  using chunks_keep_content [of 1 None "[12354, 65281, 12356]"]
  by (simp add: content_def is_space_def is_terminator_def)

subsection \<open>A text within the budget\<close>

lemma ex4_est: "estimate_tokens [32, 97] = 1" "estimate_tokens [97] = 0"
  by (simp_all add: estimate_tokens_length [where n = 2] estimate_tokens_length [where n = 1]
      times_07_table times_07_1 [unfolded One_nat_def])

text \<open>
  Claim C4, as stated, fails for a call without a client, where the cost oracle is the
  estimate: the text of a space and the letter \<open>a\<close> has estimate 1, within the budget 800,
  and the result is the stripped text, not the text.
\<close>

theorem no_client_no_early_return:
  "cost None [32, 97] = 1 \<and> split_by_tokens config_chunk_size None [32, 97] = [[97]]"
  by (simp add: cost_def ex4_est split_by_tokens_def split_by_paragraphs_def over_budget_def
      config_chunk_size_def strip_def is_space_def newline_def)

text \<open>
  Claim C4, amended. When a client is given and the client's cost of the text, its exact
  token count or its own estimate when the count query fails, is at most the budget,
  \<open>split_by_tokens\<close> returns the list of the text alone, unchanged.
\<close>

theorem within_budget_unsplit:
  "count_tokens api text \<le> chunk_size \<Longrightarrow> split_by_tokens chunk_size (Some api) text = [text]"
  by (simp add: split_by_tokens_def is_token_limit_exceeded_def)

theorem within_budget_unsplit_witness:
  "count_tokens (\<lambda>t. Some 500) [32, 97] \<le> config_chunk_size
   \<and> split_by_tokens config_chunk_size (Some (\<lambda>t. Some 500)) [32, 97] = [[32, 97]]
   \<and> count_tokens (\<lambda>t. None) [32, 97] \<le> config_chunk_size
   \<and> split_by_tokens config_chunk_size (Some (\<lambda>t. None)) [32, 97] = [[32, 97]]"
proof -
  have a: "count_tokens (\<lambda>t. Some 500) [32, 97] \<le> config_chunk_size"
    by (simp add: count_tokens_def config_chunk_size_def)
  have b: "count_tokens (\<lambda>t. None) [32, 97] \<le> config_chunk_size"
    using ex4_est(1) by (simp add: count_tokens_def config_chunk_size_def estimate_tokens_def)
  show ?thesis
    using a b within_budget_unsplit [OF a] within_budget_unsplit [OF b] by simp
qed

subsection \<open>Chunks of a script\<close>



lemma tested_Nil: "tested chunk_size []"
  by (simp add: tested_def)









subsection \<open>Merging script fragments\<close>

lemma split_where_not_Nil: "split_where d cur s \<noteq> []"
  by (induction s arbitrary: cur) auto

lemma join_Cons: "ys \<noteq> [] \<Longrightarrow> join sep (x # ys) = x @ sep @ join sep ys"
  by (cases ys) auto

lemma join_split_where:
  "join [newline] (split_where (\<lambda>c. c = newline) cur s) = cur @ s"
  by (induction s arbitrary: cur) (auto simp: join_Cons split_where_not_Nil)

lemma join_split_lines: "join [newline] (split_lines s) = s"
  using join_split_where [of "[]" s] by (simp add: split_lines_def)

lemma find_start_none: "\<forall>line \<in> set ls. \<not> is_body_line line \<Longrightarrow> find_start ls i = 0"
  by (induction ls arbitrary: i) auto

lemma find_start_some:
  assumes "\<exists>line \<in> set ls. is_body_line line"
  shows "\<exists>k < length ls. find_start ls i = i + k \<and> is_body_line (ls ! k)
           \<and> (\<forall>j < k. \<not> is_body_line (ls ! j))"
  using assms
proof (induction ls arbitrary: i)
  case Nil
  then show ?case by simp
next
  case (Cons line rest)
  show ?case
  proof (cases "is_body_line line")
    case True
    then show ?thesis by (intro exI [of _ 0]) simp
  next
    case False
    then have "\<exists>l \<in> set rest. is_body_line l" using Cons.prems by auto
    from Cons.IH [OF this, of "Suc i"] obtain k where
      k: "k < length rest" "find_start rest (Suc i) = Suc i + k" "is_body_line (rest ! k)"
         "\<forall>j < k. \<not> is_body_line (rest ! j)" by blast
    have "\<forall>j < Suc k. \<not> is_body_line ((line # rest) ! j)"
      using False k(4) by (auto simp: nth_Cons split: nat.splits)
    then show ?thesis using False k by (intro exI [of _ "Suc k"]) simp
  qed
qed

lemma merge_loop_Suc:
  "0 < i \<Longrightarrow> concat (merge_loop i ps merged)
     = concat merged @ concat (map (\<lambda>part. if remove_introduction part \<noteq> []
                                    then blank_line @ remove_introduction part else []) ps)"
  by (induction ps arbitrary: i merged) (auto simp: Let_def)

text \<open>
  Claim C5. The merger keeps the first fragment and appends, after an empty line, the
  stripped form of every later fragment that is not empty. The stripped form of a
  fragment starts at its first line that is not blank and contains no intro marker in
  its lowered text, all earlier lines being dropped; when no line is such a line, because
  every line is blank or holds a marker, the fragment is kept whole. A line of white
  space only counts as empty, as the test \<open>line.strip()\<close> has it.
\<close>

theorem intro_stripping:
  "(rest \<noteq> [] \<longrightarrow>
      merge_script_parts (first # rest)
      = first @ concat (map (\<lambda>part. if remove_introduction part \<noteq> []
                                 then blank_line @ remove_introduction part else []) rest))
   \<and> ((\<exists>line \<in> set (split_lines part). is_body_line line) \<longrightarrow>
        (\<exists>i < length (split_lines part).
           is_body_line (split_lines part ! i)
           \<and> (\<forall>j < i. \<not> is_body_line (split_lines part ! j))
           \<and> remove_introduction part = join [newline] (drop i (split_lines part))))
   \<and> ((\<forall>line \<in> set (split_lines part). \<not> is_body_line line) \<longrightarrow>
        remove_introduction part = part)"
proof (intro conjI impI)
  assume "rest \<noteq> []"
  then obtain r rs where r: "rest = r # rs" by (cases rest) auto
  have "merge_script_parts (first # rest) = concat (merge_loop (Suc 0) rest [first])"
    using r by (simp add: merge_script_parts_def)
  then show "merge_script_parts (first # rest)
      = first @ concat (map (\<lambda>part. if remove_introduction part \<noteq> []
                                 then blank_line @ remove_introduction part else []) rest)"
    using merge_loop_Suc [of "Suc 0" rest "[first]"] by simp
next
  assume "\<exists>line \<in> set (split_lines part). is_body_line line"
  from find_start_some [OF this, of 0] obtain k where
    k: "k < length (split_lines part)" "find_start (split_lines part) 0 = k"
       "is_body_line (split_lines part ! k)" "\<forall>j < k. \<not> is_body_line (split_lines part ! j)"
    by auto
  then show "\<exists>i < length (split_lines part).
           is_body_line (split_lines part ! i)
           \<and> (\<forall>j < i. \<not> is_body_line (split_lines part ! j))
           \<and> remove_introduction part = join [newline] (drop i (split_lines part))"
    by (intro exI [of _ k]) (simp add: remove_introduction_def)
next
  assume "\<forall>line \<in> set (split_lines part). \<not> is_body_line line"
  then have "find_start (split_lines part) 0 = 0" by (rule find_start_none)
  then show "remove_introduction part = part"
    by (simp add: remove_introduction_def join_split_lines)
qed

lemma ex5_lines:
  "split_lines [72, 101, 108, 108, 111, 10, 32, 10, 83, 49, 58, 120, 10, 104, 105]
   = [[72, 101, 108, 108, 111], [32], [83, 49, 58, 120], [104, 105]]"
  "split_lines [72, 101, 108, 108, 111, 10, 119, 101, 108, 99, 111, 109, 101]
   = [[72, 101, 108, 108, 111], [119, 101, 108, 99, 111, 109, 101]]"
  by (simp_all add: split_lines_def newline_def)

lemma ex5_body:
  "\<not> is_body_line [72, 101, 108, 108, 111]" "\<not> is_body_line [32]"
  "is_body_line [83, 49, 58, 120]" "\<not> is_body_line [119, 101, 108, 99, 111, 109, 101]"
  by (simp_all add: is_body_line_def has_intro_word_def intro_words_def ascii_def lower_def
      lower_char_def strip_def is_space_def)


lemma hello_split: "split_lines hello_fragment = hello_lines"
  by (simp add: hello_fragment_def hello_lines_def split_lines_def newline_def)

lemma hello_body:
  "length hello_lines = 4"
  "\<not> is_body_line (hello_lines ! 0)" "\<not> is_body_line (hello_lines ! 1)"
  "is_body_line (hello_lines ! 2)"
  "join [newline] (drop 2 hello_lines) = [83, 49, 58, 120, 10, 104, 105]"
  by (simp_all add: hello_lines_def ex5_body newline_def numeral_2_eq_2)

lemma greetings_no_body: "\<forall>line \<in> set (split_lines greetings_fragment). \<not> is_body_line line"
  by (simp add: greetings_fragment_def ex5_lines ex5_body)

theorem intro_stripping_witness:
  "merge_script_parts [[97], hello_fragment] = [97, 10, 10, 83, 49, 58, 120, 10, 104, 105]
   \<and> remove_introduction hello_fragment = [83, 49, 58, 120, 10, 104, 105]
   \<and> remove_introduction greetings_fragment = greetings_fragment"
proof -
  have "is_body_line (split_lines hello_fragment ! 2)" "2 < length (split_lines hello_fragment)"
    by (simp_all add: hello_split hello_body)
  then have ex: "\<exists>line \<in> set (split_lines hello_fragment). is_body_line line"
    using nth_mem by blast
  from intro_stripping [of "[hello_fragment]" "[97]" hello_fragment] ex obtain i where
    i: "i < length hello_lines" "is_body_line (hello_lines ! i)"
       "\<forall>j < i. \<not> is_body_line (hello_lines ! j)"
       "remove_introduction hello_fragment = join [newline] (drop i hello_lines)"
    unfolding hello_split by blast
  have "i = 2"
  proof (rule ccontr)
    assume n: "i \<noteq> 2"
    have "i < 4" using i(1) by (simp add: hello_body)
    then have "i = 0 \<or> i = 1 \<or> i = 3" using n by arith
    then show False
    proof (elim disjE)
      assume "i = 3"
      then have "\<not> is_body_line (hello_lines ! 2)" using i(3) by simp
      then show False using hello_body(4) by simp
    next
      assume "i = 0"
      then show False using i(2) hello_body(2) by simp
    next
      assume "i = 1"
      then show False using i(2) hello_body(3) by simp
    qed
  qed
  then have a: "remove_introduction hello_fragment = [83, 49, 58, 120, 10, 104, 105]"
    using i(4) hello_body(5) by simp
  have b: "merge_script_parts [[97], hello_fragment]
           = [97, 10, 10, 83, 49, 58, 120, 10, 104, 105]"
    using intro_stripping [of "[hello_fragment]" "[97]" hello_fragment] a
    by (simp add: blank_line_def newline_def)
  have c: "remove_introduction greetings_fragment = greetings_fragment"
    using intro_stripping [of "[greetings_fragment]" "[97]" greetings_fragment]
      greetings_no_body by blast
  show ?thesis using a b c by simp
qed

subsection \<open>The chunking gate of the script stage\<close>









subsection \<open>The WAV header\<close>

lemma parse_params_values:
  "parse_params ps b r
   = (last (b # values_of bits_value (map strip ps)),
      last (r # values_of rate_value (map strip ps)))"
proof (induction ps arbitrary: b r)
  case Nil
  then show ?case by simp
next
  case (Cons raw rest)
  show ?case
  proof (cases "startswith (lower (strip raw)) (ascii ''rate='')")
    case True
    then have "bits_value (strip raw) = None" by (simp add: bits_value_def)
    then show ?thesis
      using True Cons.IH
      by (auto simp: Let_def rate_value_def split: option.splits)
  next
    case False
    then have "rate_value (strip raw) = None" by (simp add: rate_value_def)
    then show ?thesis
      using False Cons.IH
      by (auto simp: Let_def bits_value_def split: option.splits)
  qed
qed

lemma pack_unsigned:
  "0 \<le> v \<Longrightarrow> v < 256 ^ width \<Longrightarrow> pack fs = Inr packed
   \<Longrightarrow> pack (Unsigned width v # fs) = Inr (le_bytes width (nat v) @ packed)"
  by simp

lemma pack_bytes: "pack fs = Inr packed \<Longrightarrow> pack (Bytes bs # fs) = Inr (bs @ packed)"
  by simp

lemma parse_values:
  "parse_audio_mime_type mime_type
     = (last (16 # values_of bits_value (mime_params mime_type)),
        last (24000 # values_of rate_value (mime_params mime_type)))"
  by (simp add: parse_audio_mime_type_def mime_params_def parse_params_values)

lemma l16_params:
  "mime_params (ascii ''audio/L16;rate=24000'') = [ascii ''audio/L16'', ascii ''rate=24000'']"
  by (simp add: mime_params_def ascii_def strip_def is_space_def)

lemma int_16: "py_int (ascii ''16'') = Some 16"
  by (simp add: py_int_def ascii_def is_int_space_def is_space_def is_decimal_def
      decimal_value_def decimal_zeros_def max_str_digits_def)

lemma int_24000: "py_int (ascii ''24000'') = Some 24000"
  by (simp add: py_int_def ascii_def is_int_space_def is_space_def is_decimal_def
      decimal_value_def decimal_zeros_def max_str_digits_def)

lemma int_minus_1: "py_int (ascii ''-1'') = Some (- 1)"
  by (simp add: py_int_def ascii_def is_int_space_def is_space_def is_decimal_def
      decimal_value_def decimal_zeros_def max_str_digits_def)


lemma int_malformed: "py_int (ascii ''abc'') = None" "py_int (ascii ''x'') = None"
  by (simp_all add: py_int_def ascii_def is_int_space_def is_space_def is_decimal_def
      decimal_zeros_def)

lemma param_values:
  "bits_value (ascii ''audio/L16'') = Some 16" "rate_value (ascii ''audio/L16'') = None"
  "bits_value (ascii ''rate=24000'') = None" "rate_value (ascii ''rate=24000'') = Some 24000"
  "bits_value (ascii ''rate=-1'') = None" "rate_value (ascii ''rate=-1'') = Some (- 1)"
  "bits_value (ascii ''audio/pcm'') = None" "rate_value (ascii ''audio/pcm'') = None"
  "bits_value (ascii ''audio/Lx'') = None" "rate_value (ascii ''audio/Lx'') = None"
  "bits_value (ascii ''rate=abc'') = None" "rate_value (ascii ''rate=abc'') = None"
  using int_16 int_24000 int_minus_1 int_malformed
  by (simp_all add: bits_value_def rate_value_def ascii_def lower_def lower_char_def)

lemma mime_examples:
  "mime_params (ascii ''audio/L16;rate=24000'') = [ascii ''audio/L16'', ascii ''rate=24000'']"
  "mime_params (ascii ''audio/L16;rate=-1'') = [ascii ''audio/L16'', ascii ''rate=-1'']"
  "mime_params (ascii ''audio/pcm'') = [ascii ''audio/pcm'']"
  "mime_params (ascii ''audio/Lx; rate=abc'') = [ascii ''audio/Lx'', ascii ''rate=abc'']"
  by (simp_all add: mime_params_def ascii_def strip_def is_space_def)

lemma parse_examples:
  "parse_audio_mime_type (ascii ''audio/L16;rate=24000'') = (16, 24000)"
  "parse_audio_mime_type (ascii ''audio/L16;rate=-1'') = (16, - 1)"
  "parse_audio_mime_type (ascii ''audio/pcm'') = (16, 24000)"
  "parse_audio_mime_type (ascii ''audio/Lx; rate=abc'') = (16, 24000)"
  by (simp_all add: parse_values mime_examples param_values)

text \<open>
  Claim C9, as stated, fails where a value does not fit its header field: the MIME type
  \<open>audio/L16;rate=-1\<close> carries a rate that \<open>int\<close> accepts, so neither a header with that
  rate nor one with the default rate is made, and \<open>struct.pack\<close> raises.
\<close>

theorem negative_rate_raises:
  "parse_audio_mime_type (ascii ''audio/L16;rate=-1'') = (16, - 1)
   \<and> convert_to_wav [0, 0] (ascii ''audio/L16;rate=-1'') = Inl StructError"
  by (simp add: parse_examples convert_to_wav_def)

text \<open>
  Claim C9, amended. Each parameter of the MIME type takes the value of the last part,
  between semicolons and stripped, that carries it with a text that \<open>int\<close> accepts (a
  part beginning with \<open>rate=\<close> in any case, or else with \<open>audio/L\<close>), and its default, 16
  bits or 24000 Hz, when no part does, so when the parameter is absent or malformed
  throughout. For the parsed bits \<open>b\<close> and rate \<open>r\<close> and a payload of any size, when every
  value fits its unsigned header field, the result is the 44 byte header followed by the
  payload: \<open>RIFF\<close>, the chunk size 36 plus the payload size, \<open>WAVE\<close>, \<open>fmt\<close>, 16, the format
  1 of PCM, 1 channel, the rate \<open>r\<close>, the byte rate \<open>r\<close> times the block align, the block
  align \<open>b div 8\<close>, the bits \<open>b\<close>, \<open>data\<close> and the payload size, numbers low byte first.
\<close>

theorem wav_header:
  "parse_audio_mime_type mime_type
     = (last (16 # values_of bits_value (mime_params mime_type)),
        last (24000 # values_of rate_value (mime_params mime_type)))
   \<and> (parse_audio_mime_type mime_type = (b, r)
        \<and> 0 \<le> b \<and> b < 65536 \<and> 0 \<le> r \<and> r < 4294967296 \<and> r * (b div 8) < 4294967296
        \<and> 36 + int (length audio_data) < 4294967296 \<longrightarrow>
      convert_to_wav audio_data mime_type
      = Inr (ascii ''RIFF'' @ le_bytes 4 (36 + length audio_data) @ ascii ''WAVE''
             @ ascii ''fmt '' @ le_bytes 4 16 @ le_bytes 2 1 @ le_bytes 2 1
             @ le_bytes 4 (nat r) @ le_bytes 4 (nat (r * (b div 8)))
             @ le_bytes 2 (nat (b div 8)) @ le_bytes 2 (nat b)
             @ ascii ''data'' @ le_bytes 4 (length audio_data) @ audio_data))"
proof (intro conjI impI)
  show "parse_audio_mime_type mime_type
     = (last (16 # values_of bits_value (mime_params mime_type)),
        last (24000 # values_of rate_value (mime_params mime_type)))"
    by (rule parse_values)
next
  assume a: "parse_audio_mime_type mime_type = (b, r)
        \<and> 0 \<le> b \<and> b < 65536 \<and> 0 \<le> r \<and> r < 4294967296 \<and> r * (b div 8) < 4294967296
        \<and> 36 + int (length audio_data) < 4294967296"
  then have b: "0 \<le> b" "b < 65536" and r: "0 \<le> r" by simp_all
  have d: "0 \<le> b div 8" "b div 8 < 65536" using b by presburger+
  have m: "0 \<le> r * (b div 8)" using r d by simp
  have n: "nat (36 + int (length audio_data)) = 36 + length audio_data" by simp
  show "convert_to_wav audio_data mime_type
      = Inr (ascii ''RIFF'' @ le_bytes 4 (36 + length audio_data) @ ascii ''WAVE''
             @ ascii ''fmt '' @ le_bytes 4 16 @ le_bytes 2 1 @ le_bytes 2 1
             @ le_bytes 4 (nat r) @ le_bytes 4 (nat (r * (b div 8)))
             @ le_bytes 2 (nat (b div 8)) @ le_bytes 2 (nat b)
             @ ascii ''data'' @ le_bytes 4 (length audio_data) @ audio_data)"
    using a d m by (simp add: convert_to_wav_def n Let_def)
qed

theorem wav_header_witness:
  "parse_audio_mime_type (ascii ''audio/L16;rate=24000'') = (16, 24000)
   \<and> convert_to_wav [1, 2, 3, 4] (ascii ''audio/L16;rate=24000'')
     = Inr ([82, 73, 70, 70, 40, 0, 0, 0, 87, 65, 86, 69, 102, 109, 116, 32, 16, 0, 0, 0,
             1, 0, 1, 0, 192, 93, 0, 0, 128, 187, 0, 0, 2, 0, 16, 0,
             100, 97, 116, 97, 4, 0, 0, 0] @ [1, 2, 3, 4])
   \<and> parse_audio_mime_type (ascii ''audio/pcm'') = (16, 24000)
   \<and> parse_audio_mime_type (ascii ''audio/Lx; rate=abc'') = (16, 24000)"
proof -
  have h: "parse_audio_mime_type (ascii ''audio/L16;rate=24000'') = (16, 24000)
        \<and> (0::int) \<le> 16 \<and> (16::int) < 65536 \<and> (0::int) \<le> 24000 \<and> (24000::int) < 4294967296
        \<and> (24000::int) * (16 div 8) < 4294967296
        \<and> 36 + int (length [1, 2, 3, 4::nat]) < 4294967296"
    by (simp add: parse_examples)
  have le: "le_bytes 4 40 = [40, 0, 0, 0]" "le_bytes 4 16 = [16, 0, 0, 0]"
    "le_bytes 2 (Suc 0) = [1, 0]" "le_bytes 4 24000 = [192, 93, 0, 0]"
    "le_bytes 4 48000 = [128, 187, 0, 0]" "le_bytes 2 2 = [2, 0]" "le_bytes 2 16 = [16, 0]"
    "le_bytes 4 (Suc (Suc (Suc (Suc 0)))) = [4, 0, 0, 0]"
    by (simp_all add: le_bytes_def upt_rec)
  have c: "convert_to_wav [1, 2, 3, 4] (ascii ''audio/L16;rate=24000'')
     = Inr ([82, 73, 70, 70, 40, 0, 0, 0, 87, 65, 86, 69, 102, 109, 116, 32, 16, 0, 0, 0,
             1, 0, 1, 0, 192, 93, 0, 0, 128, 187, 0, 0, 2, 0, 16, 0,
             100, 97, 116, 97, 4, 0, 0, 0] @ [1, 2, 3, 4])"
    using wav_header [of "ascii ''audio/L16;rate=24000''" 16 24000 "[1, 2, 3, 4]"] h
    by (simp add: le) (simp add: ascii_def)
  have d: "parse_audio_mime_type (ascii ''audio/pcm'') = (16, 24000)"
    using wav_header [of "ascii ''audio/pcm''" 0 0 "[]"]
    by (simp add: mime_examples param_values)
  have e: "parse_audio_mime_type (ascii ''audio/Lx; rate=abc'') = (16, 24000)"
    using wav_header [of "ascii ''audio/Lx; rate=abc''" 0 0 "[]"]
    by (simp add: mime_examples param_values)
  show ?thesis using h c d e by simp
qed

subsection \<open>Front matter that yields no metadata\<close>







end
